theory Spec2Isabelle
  imports Complex_Main "HOL-Library.Word" "HOL-Library.Sublist"
begin

section \<open>Go values: bytes, strings, slices, run-time panics\<close>

text \<open>
  The development embeds \<^verbatim>\<open>pkg/libhttpc/client.go\<close>. A Go \<^verbatim>\<open>string\<close> is an
  immutable byte sequence and is modelled as \<^typ>\<open>string\<close> (a list of 8-bit characters);
  a \<^verbatim>\<open>[]byte\<close> is a list of 8-bit words. The conversions \<^verbatim>\<open>[]byte(s)\<close> and
  \<^verbatim>\<open>string(b)\<close> copy the bytes unchanged.

  A failed index or slice expression, and a dereference of a nil pointer, abort the
  goroutine with a run-time panic; an \<^verbatim>\<open>error\<close> result is an ordinary value. Both are
  \<open>Inl\<close> results of the model, told apart by the constructor.
\<close>

type_synonym byte = "8 word"
type_synonym uint16 = "16 word"
type_synonym uint32 = "32 word"

datatype panic = IndexOutOfRange | SliceBoundsOutOfRange | NilDereference

datatype error =
    Panic panic
  | ErrSyntax
  | ErrRange
  | ErrorString string
  | IOError string

text \<open>Sequencing: the first failure ends the computation.\<close>

definition andThen :: "error + 'a \<Rightarrow> ('a \<Rightarrow> error + 'b) \<Rightarrow> error + 'b" where
  "andThen m f = (case m of Inl e \<Rightarrow> Inl e | Inr v \<Rightarrow> f v)"

lemma andThen_Inl [simp]: "andThen (Inl e) f = Inl e"
  by (simp add: andThen_def)

lemma andThen_Inr [simp]: "andThen (Inr v) f = f v"
  by (simp add: andThen_def)

lemma andThen_cong [fundef_cong]:
  "m = m' \<Longrightarrow> (\<And>v. m' = Inr v \<Longrightarrow> f v = f' v) \<Longrightarrow> andThen m f = andThen m' f'"
  by (cases m') (simp_all add: andThen_def)

definition bytesOfString :: "string \<Rightarrow> byte list" where
  "bytesOfString s = map (\<lambda>c. word_of_nat (of_char c)) s"

definition stringOfBytes :: "byte list \<Rightarrow> string" where
  "stringOfBytes b = map (\<lambda>x. char_of (unat x)) b"

text \<open>\<^verbatim>\<open>xs[i]\<close>, \<^verbatim>\<open>xs[i] = v\<close>, \<^verbatim>\<open>xs[lo:hi]\<close> and \<^verbatim>\<open>xs[lo:]\<close> on a slice whose
  capacity equals its length.\<close>

definition indexAt :: "'a list \<Rightarrow> nat \<Rightarrow> error + 'a" where
  "indexAt xs i = (if i < length xs then Inr (xs ! i) else Inl (Panic IndexOutOfRange))"

definition setAt :: "'a list \<Rightarrow> nat \<Rightarrow> 'a \<Rightarrow> error + 'a list" where
  "setAt xs i v = (if i < length xs then Inr (xs[i := v]) else Inl (Panic IndexOutOfRange))"

definition subslice :: "'a list \<Rightarrow> nat \<Rightarrow> nat \<Rightarrow> error + 'a list" where
  "subslice xs lo hi =
     (if lo \<le> hi \<and> hi \<le> length xs then Inr (take (hi - lo) (drop lo xs))
      else Inl (Panic SliceBoundsOutOfRange))"

definition sliceFrom :: "'a list \<Rightarrow> nat \<Rightarrow> error + 'a list" where
  "sliceFrom xs lo = subslice xs lo (length xs)"

section \<open>The standard-library functions the file calls\<close>

text \<open>\<^verbatim>\<open>strings.Index\<close>: the position of the first occurrence, \<open>None\<close> for \<open>-1\<close>.\<close>

fun Index :: "string \<Rightarrow> string \<Rightarrow> nat option" where
  "Index [] sub = (if sub = [] then Some 0 else None)"
| "Index (c # cs) sub =
     (if prefix sub (c # cs) then Some 0 else map_option Suc (Index cs sub))"

lemma Index_bound: "Index s sub = Some m \<Longrightarrow> m + length sub \<le> length s"
proof (induction s arbitrary: m)
  case Nil
  then show ?case by (simp split: if_splits)
next
  case (Cons c cs)
  show ?case
  proof (cases "prefix sub (c # cs)")
    case True
    then have "length sub \<le> length (c # cs)" by (rule prefix_length_le)
    with True Cons.prems show ?thesis by simp
  next
    case False
    with Cons.prems obtain k where "Index cs sub = Some k" "m = Suc k" by auto
    with Cons.IH show ?thesis by fastforce
  qed
qed

text \<open>\<^verbatim>\<open>strings.Split\<close> with a non-empty separator (the only use in this file): cut at
  each leftmost occurrence of the separator; a string without the separator is returned
  whole, so the result always has at least one element.\<close>

function Split :: "string \<Rightarrow> string \<Rightarrow> string list" where
  "Split s sep =
     (if sep = [] then [s]
      else case Index s sep of
             None \<Rightarrow> [s]
           | Some m \<Rightarrow> take m s # Split (drop (m + length sep) s) sep)"
  by pat_completeness auto
termination
proof (relation "measure (\<lambda>(s, sep). length s)")
  show "wf (measure (\<lambda>(s, sep). length s))" by simp
next
  fix s sep :: string and m
  assume "sep \<noteq> []" and "Index s sep = Some m"
  then have "m + length sep \<le> length s" and "0 < length sep"
    by (simp_all add: Index_bound)
  then have "length s - (m + length sep) < length s" by arith
  then show "((drop (m + length sep) s, sep), (s, sep)) \<in> measure (\<lambda>(s, sep). length s)"
    by simp
qed

declare Split.simps [simp del]

definition HasPrefix :: "string \<Rightarrow> string \<Rightarrow> bool" where
  "HasPrefix s p = prefix p s"

definition TrimSuffix :: "string \<Rightarrow> string \<Rightarrow> string" where
  "TrimSuffix s suf = (if suffix suf s then take (length s - length suf) s else s)"

fun Join :: "string list \<Rightarrow> string \<Rightarrow> string" where
  "Join [] sep = []"
| "Join [x] sep = x"
| "Join (x # y # ys) sep = x @ sep @ Join (y # ys) sep"

text \<open>\<^verbatim>\<open>strconv.Atoi\<close> on a 64-bit platform: an optional sign and at least one decimal
  digit. A syntax error returns the value 0 with the error; a value outside the 64-bit
  range returns the nearest bound with the error.\<close>

definition isDigit :: "char \<Rightarrow> bool" where
  "isDigit c = (48 \<le> (of_char c :: nat) \<and> (of_char c :: nat) \<le> 57)"

fun digitsValue :: "nat \<Rightarrow> string \<Rightarrow> nat" where
  "digitsValue n [] = n"
| "digitsValue n (c # cs) = digitsValue (n * 10 + (of_char c - 48)) cs"

definition Atoi :: "string \<Rightarrow> int \<times> error option" where
  "Atoi s =
     (let neg = (s \<noteq> [] \<and> hd s = CHR ''-'');
          ds = (if s \<noteq> [] \<and> (hd s = CHR ''-'' \<or> hd s = CHR ''+'') then tl s else s)
      in if ds = [] \<or> \<not> list_all isDigit ds then (0, Some ErrSyntax)
         else let n = int (digitsValue 0 ds)
              in if neg then (if n > 2 ^ 63 then (- (2 ^ 63), Some ErrRange) else (- n, None))
                 else (if n \<ge> 2 ^ 63 then (2 ^ 63 - 1, Some ErrRange) else (n, None)))"

text \<open>\<^verbatim>\<open>fmt.Sprintf("%d", n)\<close> for a non-negative \<open>n\<close>.\<close>

fun decimal :: "nat \<Rightarrow> string" where
  "decimal n =
     (if n < 10 then [char_of (48 + n)]
      else decimal (n div 10) @ [char_of (48 + n mod 10)])"

declare decimal.simps [simp del]

text \<open>\<^verbatim>\<open>binary.BigEndian\<close>.\<close>

definition PutUint32 :: "uint32 \<Rightarrow> byte list" where
  "PutUint32 v = [ucast (drop_bit 24 v), ucast (drop_bit 16 v), ucast (drop_bit 8 v), ucast v]"

definition PutUint16 :: "uint16 \<Rightarrow> byte list" where
  "PutUint16 v = [ucast (drop_bit 8 v), ucast v]"

definition Uint32 :: "byte list \<Rightarrow> error + uint32" where
  "Uint32 b =
     (if length b < 4 then Inl (Panic IndexOutOfRange)
      else Inr (or (ucast (b ! 3))
               (or (push_bit 8 (ucast (b ! 2)))
               (or (push_bit 16 (ucast (b ! 1))) (push_bit 24 (ucast (b ! 0)))))))"

section \<open>Packet codec\<close>

text \<open>The struct \<^verbatim>\<open>UDPPacket\<close> is declared outside \<^verbatim>\<open>client.go\<close>; its five
  \<^verbatim>\<open>[]byte\<close> fields are the ones the composite literals of \<^verbatim>\<open>ParsePacket\<close> and
  \<^verbatim>\<open>makePacket\<close> name.\<close>

record UDPPacket =
  pType :: "byte list"
  seqNo :: "byte list"
  peerAddr :: "byte list"
  peerPort :: "byte list"
  payload :: "byte list"

text \<open>\<^verbatim>\<open>ParsePacket\<close> has no length check and no error result. Its expressions
  \<^verbatim>\<open>data[0]\<close>, \<^verbatim>\<open>data[1:5]\<close>, \<^verbatim>\<open>data[5:9]\<close>, \<^verbatim>\<open>data[9:11]\<close>, \<^verbatim>\<open>data[11:]\<close> are
  evaluated in this order and the first that is out of range panics. (For a slice with
  spare capacity the three middle expressions are checked against the capacity, the first
  and the last against the length; the outcome is the same: on an empty input the index
  expression panics, on 1 to 10 bytes one of the slice expressions does.)\<close>

definition ParsePacket :: "byte list \<Rightarrow> error + UDPPacket" where
  "ParsePacket data =
     andThen (indexAt data 0) (\<lambda>pType'.
     andThen (subslice data 1 5) (\<lambda>seqNo'.
     andThen (subslice data 5 9) (\<lambda>peerAddr'.
     andThen (subslice data 9 11) (\<lambda>peerPort'.
     andThen (sliceFrom data 11) (\<lambda>payload'.
       Inr \<lparr>pType = [pType'], seqNo = seqNo', peerAddr = peerAddr',
            peerPort = peerPort', payload = payload'\<rparr>)))))"

text \<open>The loop of \<^verbatim>\<open>makePacket\<close> over the dot-separated sections of the address:
  \<^verbatim>\<open>peerAddrBytes[i] = byte(intSection)\<close>, the error of \<^verbatim>\<open>Atoi\<close> discarded.\<close>

fun fillAddr :: "byte list \<Rightarrow> nat \<Rightarrow> string list \<Rightarrow> error + byte list" where
  "fillAddr peerAddrBytes i [] = Inr peerAddrBytes"
| "fillAddr peerAddrBytes i (section # rest) =
     andThen (setAt peerAddrBytes i (word_of_int (fst (Atoi section)))) (\<lambda>peerAddrBytes'.
       fillAddr peerAddrBytes' (Suc i) rest)"

text \<open>\<^verbatim>\<open>makePacket(pType, seqNo, parsedURL, payload)\<close>; \<open>host\<close> is \<^verbatim>\<open>parsedURL.Host\<close>.
  \<^verbatim>\<open>strings.Split\<close> returns at least one element, so \<^verbatim>\<open>addrSplit[0]\<close> is in range;
  \<^verbatim>\<open>addrSplit[1]\<close> is not when the host has no colon. The errors of both \<^verbatim>\<open>Atoi\<close>
  calls are discarded; \<^verbatim>\<open>byte(n)\<close> and \<^verbatim>\<open>uint16(n)\<close> keep the low bits.\<close>

definition makePacket :: "uint32 \<Rightarrow> uint32 \<Rightarrow> string \<Rightarrow> string \<Rightarrow> error + UDPPacket" where
  "makePacket pTypeArg seqNoArg host payloadArg =
     (let pTypeByte = [ucast pTypeArg :: byte];
          seqNoBytes = PutUint32 seqNoArg;
          addrSplit = Split host '':'';
          peerAddrSplit = Split (hd addrSplit) ''.''
      in andThen (fillAddr (replicate 4 0) 0 peerAddrSplit) (\<lambda>peerAddrBytes.
         andThen (indexAt addrSplit 1) (\<lambda>portString.
           Inr \<lparr>pType = pTypeByte, seqNo = seqNoBytes, peerAddr = peerAddrBytes,
                peerPort = PutUint16 (word_of_int (fst (Atoi portString))),
                payload = bytesOfString payloadArg\<rparr>)))"

definition getBytesFromPacket :: "UDPPacket \<Rightarrow> byte list" where
  "getBytesFromPacket packet =
     pType packet @ seqNo packet @ peerAddr packet @ peerPort packet @ payload packet"

section \<open>Segmenter\<close>

text \<open>\<^verbatim>\<open>int(math.Ceil(float64(len(payload)) / float64(1013)))\<close>. The quotient is taken
  in the reals; the 64-bit floating-point quotient has the same ceiling for every length
  below \<open>2^44\<close>.\<close>

definition numPacketsOf :: "string \<Rightarrow> nat" where
  "numPacketsOf payloadArg = nat \<lceil>real (length payloadArg) / 1013\<rceil>"

text \<open>The \<^verbatim>\<open>for i := 1; i < numPackets; i++\<close> loop of \<^verbatim>\<open>getDataPacketBytes\<close>; it
  returns the slots, \<^verbatim>\<open>counter\<close> and \<^verbatim>\<open>seqNo\<close> after the loop.\<close>

function chunkLoop ::
  "string \<Rightarrow> byte list \<Rightarrow> nat \<Rightarrow> nat \<Rightarrow> nat \<Rightarrow> uint32 \<Rightarrow> byte list list
     \<Rightarrow> error + (byte list list \<times> nat \<times> uint32)" where
  "chunkLoop host payloadBytes numPackets i counter seqNoArg packetsBytes =
     (if i < numPackets then
        andThen (subslice payloadBytes counter (counter + 1013)) (\<lambda>chunk.
        andThen (makePacket 0 seqNoArg host (stringOfBytes chunk)) (\<lambda>packetForChunk.
        andThen (setAt packetsBytes (i - 1) (getBytesFromPacket packetForChunk)) (\<lambda>packetsBytes'.
          chunkLoop host payloadBytes numPackets (i + 1) (counter + 1013) (seqNoArg + 1)
            packetsBytes')))
      else Inr (packetsBytes, counter, seqNoArg))"
  by pat_completeness auto
termination
  by (relation "measure (\<lambda>(host, payloadBytes, numPackets, i, rest). numPackets - i)") auto

declare chunkLoop.simps [simp del]

text \<open>\<^verbatim>\<open>getDataPacketBytes\<close>; \<^verbatim>\<open>make([][]byte, numPackets)\<close> is a list of nil slices.\<close>

definition getDataPacketBytes ::
  "uint32 \<Rightarrow> string \<Rightarrow> string \<Rightarrow> error + (byte list list \<times> nat)" where
  "getDataPacketBytes seqNoArg host payloadArg =
     (let numPackets = numPacketsOf payloadArg;
          packetsBytes = replicate numPackets [];
          payloadBytes = bytesOfString payloadArg
      in if numPackets = 1 then
           andThen (makePacket 0 seqNoArg host payloadArg) (\<lambda>packet.
           andThen (setAt packetsBytes 0 (getBytesFromPacket packet)) (\<lambda>packetsBytes'.
             Inr (packetsBytes', 1)))
         else
           andThen (chunkLoop host payloadBytes numPackets 1 0 seqNoArg packetsBytes)
             (\<lambda>(packetsBytes1, counter, seqNo1).
                if length payloadArg mod 1013 > 0 then
                  andThen (sliceFrom payloadBytes counter) (\<lambda>residueChunk.
                  andThen (makePacket 0 seqNo1 host (stringOfBytes residueChunk)) (\<lambda>packet.
                  andThen (setAt packetsBytes1 (numPackets - 1) (getBytesFromPacket packet))
                    (\<lambda>packetsBytes2. Inr (packetsBytes2, numPackets))))
                else Inr (packetsBytes1, numPackets)))"

section \<open>The socket as seen by one request\<close>

text \<open>A call of \<^verbatim>\<open>conn.ReadFromUDP(readBuf)\<close> either fails (a deadline or an I/O error)
  or copies a datagram into the buffer, cut to the length of the buffer; the rest of the
  freshly made buffer stays zero. The number of bytes read is discarded by every caller,
  so the parser always sees the whole buffer. Writes are recorded in order; a failed
  write is only printed by the code and changes nothing else.\<close>

datatype readResult = ReadErr | Datagram "byte list"

definition readInto :: "nat \<Rightarrow> byte list \<Rightarrow> byte list" where
  "readInto n d = take n d @ replicate (n - length d) 0"

section \<open>Handshake\<close>

definition seqInit :: uint32 where
  "seqInit = 1"

definition afterWrite ::
  "byte list \<Rightarrow> error + (byte list list \<times> bool \<times> readResult list)
     \<Rightarrow> error + (byte list list \<times> bool \<times> readResult list)" where
  "afterWrite w r = andThen r (\<lambda>(ws, returned, unread). Inr (w # ws, returned, unread))"

text \<open>\<^verbatim>\<open>handshake\<close> is an unbounded \<^verbatim>\<open>for\<close> loop that carries no variable from one
  iteration to the next. The model runs it against the finite list of results of the
  reads made so far and returns the datagrams written, whether the function has
  returned (the \<^verbatim>\<open>break\<close>), and the reads not consumed. When the reads run out the loop
  is blocked in \<^verbatim>\<open>ReadFromUDP\<close> after having written its SYN.\<close>

fun handshake ::
  "string \<Rightarrow> nat \<Rightarrow> readResult list \<Rightarrow> error + (byte list list \<times> bool \<times> readResult list)" where
  "handshake host numPackets [] =
     andThen (makePacket 2 seqInit host (decimal numPackets)) (\<lambda>packet.
       Inr ([getBytesFromPacket packet], False, []))"
| "handshake host numPackets (ReadErr # rest) =
     andThen (makePacket 2 seqInit host (decimal numPackets)) (\<lambda>packet.
       afterWrite (getBytesFromPacket packet) (handshake host numPackets rest))"
| "handshake host numPackets (Datagram d # rest) =
     andThen (makePacket 2 seqInit host (decimal numPackets)) (\<lambda>packet.
     andThen (ParsePacket (readInto 11 d)) (\<lambda>synAck.
     andThen (Uint32 (seqNo synAck)) (\<lambda>receivedSeq.
     andThen (indexAt (pType synAck) 0) (\<lambda>kind.
       if kind = 3 \<and> receivedSeq = seqInit + 1 then
         andThen (makePacket 1 (receivedSeq + 1) host []) (\<lambda>ack.
           Inr ([getBytesFromPacket packet, getBytesFromPacket ack], True, rest))
       else afterWrite (getBytesFromPacket packet) (handshake host numPackets rest)))))"

declare handshake.simps [simp del]

section \<open>Receive loop of \<^verbatim>\<open>UDPGet\<close>\<close>

text \<open>\<^verbatim>\<open>remove\<close>: the list without its first element whose sequence number is the one
  of \<^verbatim>\<open>removePack\<close>.\<close>

fun remove :: "UDPPacket list \<Rightarrow> UDPPacket \<Rightarrow> error + UDPPacket list" where
  "remove [] removePack = Inr []"
| "remove (current # rest) removePack =
     andThen (Uint32 (seqNo current)) (\<lambda>a.
     andThen (Uint32 (seqNo removePack)) (\<lambda>b.
       if a = b then Inr rest
       else andThen (remove rest removePack) (\<lambda>rest'. Inr (current # rest'))))"

definition checkNotEmpty :: "string list \<Rightarrow> bool" where
  "checkNotEmpty responsePayloadArg = list_all (\<lambda>packet. length packet \<noteq> 0) responsePayloadArg"

definition stringifiedResponse :: "string list \<Rightarrow> string" where
  "stringifiedResponse responsePayloadArg = concat responsePayloadArg"

text \<open>Index and slice expressions whose bounds are computed by subtraction in \<^verbatim>\<open>int\<close>
  and can be negative.\<close>

definition indexAtInt :: "'a list \<Rightarrow> int \<Rightarrow> error + 'a" where
  "indexAtInt xs i =
     (if 0 \<le> i \<and> i < int (length xs) then Inr (xs ! nat i) else Inl (Panic IndexOutOfRange))"

definition sliceInt :: "'a list \<Rightarrow> int \<Rightarrow> int \<Rightarrow> error + 'a list" where
  "sliceInt xs lo hi =
     (if 0 \<le> lo \<and> lo \<le> hi \<and> hi \<le> int (length xs) then Inr (take (nat (hi - lo)) (drop (nat lo) xs))
      else Inl (Panic SliceBoundsOutOfRange))"

text \<open>The variables of \<^verbatim>\<open>UDPGet\<close> that live across iterations of its receive loop.\<close>

record getState =
  numOfResponsePackets :: int
  responsePayload :: "string list"
  nakList :: "UDPPacket list"
  expectedSeqNo :: uint32
  acks :: "uint32 list"
  naks :: "uint32 list"

definition initialGetState :: getState where
  "initialGetState =
     \<lparr>numOfResponsePackets = - 1, responsePayload = [], nakList = [], expectedSeqNo = 1,
      acks = replicate 5 0, naks = replicate 5 0\<rparr>"

text \<open>What one iteration does: the datagrams it writes, the packet it offers to the
  channel of the retransmission goroutine (if any), the variables afterwards, and the
  value returned by \<^verbatim>\<open>UDPGet\<close> when the iteration ends the loop.\<close>

record getStep =
  written :: "byte list list"
  offered :: "UDPPacket option"
  after :: getState
  returned :: "string option"

text \<open>The loop \<^verbatim>\<open>for packetNum := expectedSeqNo; packetNum < responseSeq; packetNum++\<close>.\<close>

function nakLoop ::
  "string \<Rightarrow> uint32 \<Rightarrow> uint32 \<Rightarrow> uint32 list \<Rightarrow> byte list list
     \<Rightarrow> error + (uint32 list \<times> byte list list)" where
  "nakLoop host packetNum responseSeq naksArg writes =
     (if packetNum < responseSeq then
        andThen (makePacket 4 packetNum host []) (\<lambda>nakPacket.
          nakLoop host (packetNum + 1) responseSeq (naksArg @ [packetNum])
            (writes @ [getBytesFromPacket nakPacket]))
      else Inr (naksArg, writes))"
  by pat_completeness auto
termination
proof (relation "measure (\<lambda>(host, packetNum, responseSeq, rest). unat responseSeq - unat packetNum)")
  show "wf (measure (\<lambda>(host, packetNum, responseSeq, rest). unat responseSeq - unat packetNum))"
    by simp
next
  fix host :: string and packetNum responseSeq :: uint32
    and naksArg :: "uint32 list" and writes :: "byte list list" and nakPacket :: UDPPacket
  assume "packetNum < responseSeq"
  then have lt: "unat packetNum < unat responseSeq"
    by (simp add: word_less_nat_alt)
  have "unat responseSeq < 2 ^ 32"
    using unsigned_less [of responseSeq] by simp
  with lt have "unat (packetNum + 1) = unat packetNum + 1"
    by (simp add: unat_word_ariths)
  with lt show "((host, packetNum + 1, responseSeq, naksArg @ [packetNum],
                  writes @ [getBytesFromPacket nakPacket]),
                 (host, packetNum, responseSeq, naksArg, writes))
        \<in> measure (\<lambda>(host, packetNum, responseSeq, rest). unat responseSeq - unat packetNum)"
    by simp
qed

declare nakLoop.simps [simp del]

text \<open>The first DATA packet fixes the number of response packets, read from the last
  byte of its payload (0 counts as 1), and allocates the reassembly buffer.\<close>

definition allocateBuffer :: "getState \<Rightarrow> UDPPacket \<Rightarrow> error + getState" where
  "allocateBuffer st responsePacket =
     (if numOfResponsePackets st = - 1 then
        andThen (indexAtInt (payload responsePacket) (int (length (payload responsePacket)) - 1))
          (\<lambda>lastByte.
             let n = (if uint lastByte = 0 then 1 else uint lastByte)
             in Inr (st\<lparr>numOfResponsePackets := n, responsePayload := replicate (nat (n + 5)) []\<rparr>))
      else Inr st)"

text \<open>The three branches on \<^verbatim>\<open>responseSeq\<close> against \<^verbatim>\<open>expectedSeqNo\<close>; the
  packets built in all three have type 4.\<close>

definition acknowledge ::
  "string \<Rightarrow> getState \<Rightarrow> uint32 \<Rightarrow> error + (byte list list \<times> getState)" where
  "acknowledge host st responseSeq =
     (if responseSeq = expectedSeqNo st then
        andThen (makePacket 4 responseSeq host []) (\<lambda>ackPacket.
          Inr ([getBytesFromPacket ackPacket], st\<lparr>expectedSeqNo := expectedSeqNo st + 1\<rparr>))
      else if responseSeq < expectedSeqNo st then
        andThen (makePacket 4 responseSeq host []) (\<lambda>ackPacket.
          Inr ([getBytesFromPacket ackPacket], st))
      else
        andThen (nakLoop host (expectedSeqNo st) responseSeq (naks st) []) (\<lambda>(naks', writes).
          Inr (writes, st\<lparr>naks := naks', expectedSeqNo := responseSeq + 1\<rparr>)))"

text \<open>The body of \<^verbatim>\<open>if responsePacket.pType[0] == 0\<close>.\<close>

definition getData :: "string \<Rightarrow> getState \<Rightarrow> UDPPacket \<Rightarrow> error + getStep" where
  "getData host st responsePacket =
     andThen (allocateBuffer st responsePacket) (\<lambda>st1.
     andThen (Uint32 (seqNo responsePacket)) (\<lambda>responseSeq.
     let responsePacketPayloadLength = int (length (payload responsePacket)) - 1 in
     andThen (sliceInt (payload responsePacket) 0 (responsePacketPayloadLength - 1)) (\<lambda>responseSlice.
     andThen (setAt (responsePayload st1) (unat responseSeq) (stringOfBytes responseSlice))
       (\<lambda>responsePayload'.
     let st2 = st1\<lparr>responsePayload := responsePayload', acks := acks st1 @ [responseSeq]\<rparr> in
     andThen (acknowledge host st2 responseSeq) (\<lambda>(writes, st3).
     if numOfResponsePackets st3 = 1 then
       andThen (indexAt (responsePayload st3) (unat responseSeq)) (\<lambda>r.
         Inr \<lparr>written = writes, offered = None, after = st3, returned = Some r\<rparr>)
     else
       andThen (sliceInt (responsePayload st3) 1 (numOfResponsePackets st3 + 1)) (\<lambda>window.
         Inr \<lparr>written = writes, offered = None, after = st3,
              returned = (if checkNotEmpty window then Some (stringifiedResponse window)
                          else None)\<rparr>))))))"

text \<open>One iteration of the receive loop of \<^verbatim>\<open>UDPGet\<close>. The buffer has 1024 bytes, so
  \<^verbatim>\<open>ParsePacket\<close> cannot fail here and the payload always has 1013 bytes.\<close>

definition getIteration :: "string \<Rightarrow> getState \<Rightarrow> readResult \<Rightarrow> error + getStep" where
  "getIteration host st r =
     (case r of
        ReadErr \<Rightarrow>
          andThen (ParsePacket (readInto 1024 [])) (\<lambda>responsePacket.
            Inr \<lparr>written = [], offered = None, after = st, returned = None\<rparr>)
      | Datagram d \<Rightarrow>
          andThen (ParsePacket (readInto 1024 d)) (\<lambda>responsePacket.
          andThen (indexAt (pType responsePacket) 0) (\<lambda>kind.
          andThen
            (if kind = 4 then Inr (nakList st @ [responsePacket])
             else if kind = 1 then remove (nakList st) responsePacket
             else Inr (nakList st)) (\<lambda>nakList'.
          if kind = 0 then getData host (st\<lparr>nakList := nakList'\<rparr>) responsePacket
          else Inr \<lparr>written = [],
                    offered = (if kind = 1 \<or> kind = 4 then Some responsePacket else None),
                    after = st\<lparr>nakList := nakList'\<rparr>, returned = None\<rparr>))))"

section \<open>Hand-off to the retransmission goroutine\<close>

text \<open>A Go channel as far as a sender can observe it: the values buffered, the capacity
  given to \<^verbatim>\<open>make\<close> (0 for \<^verbatim>\<open>make(chan UDPPacket)\<close>), and whether the receiving
  goroutine is parked in its receive. A send completes when a receiver is parked (the
  value goes to it directly) or when the buffer has room; otherwise a plain send blocks
  the sender, while a \<^verbatim>\<open>select\<close> with a \<^verbatim>\<open>default\<close> case takes the default.\<close>

record chan =
  buffered :: "UDPPacket list"
  capacity :: nat
  receiverParked :: bool

definition trySend :: "chan \<Rightarrow> UDPPacket \<Rightarrow> chan option" where
  "trySend ch v =
     (if receiverParked ch then Some (ch\<lparr>receiverParked := False\<rparr>)
      else if length (buffered ch) < capacity ch then Some (ch\<lparr>buffered := buffered ch @ [v]\<rparr>)
      else None)"

datatype handOff = Delivered chan | Dropped chan | Blocked chan

text \<open>\<^verbatim>\<open>UDPGet\<close>: \<^verbatim>\<open>select { case packetChan <- responsePacket: default: }\<close>.\<close>

definition getHandOff :: "chan \<Rightarrow> UDPPacket \<Rightarrow> handOff" where
  "getHandOff ch responsePacket =
     (case trySend ch responsePacket of
        Some ch' \<Rightarrow> Delivered ch'
      | None \<Rightarrow> Dropped ch)"

text \<open>\<^verbatim>\<open>UDPPost\<close>: the body of the send case is a second, plain send of the same
  packet: \<^verbatim>\<open>select { case packetChan <- responsePacket: packetChan <- responsePacket;
  default: }\<close>.\<close>

definition postHandOff :: "chan \<Rightarrow> UDPPacket \<Rightarrow> handOff" where
  "postHandOff ch responsePacket =
     (case trySend ch responsePacket of
        Some ch' \<Rightarrow>
          (case trySend ch' responsePacket of
             Some ch'' \<Rightarrow> Delivered ch''
           | None \<Rightarrow> Blocked ch')
      | None \<Rightarrow> Dropped ch)"

section \<open>Responses and redirects\<close>

text \<open>Modelled from the spec: the constant \<^verbatim>\<open>CRLF\<close> is declared outside
  \<^verbatim>\<open>client.go\<close>; the spec names it as the line terminator of the request and response
  text, carriage return and line feed.\<close>

definition CRLF :: string where
  "CRLF = [CHR 0x0D, CHR 0x0A]"

text \<open>The struct \<^verbatim>\<open>Response\<close> is declared outside \<^verbatim>\<open>client.go\<close>; these are the
  fields the file assigns and reads. A \<^verbatim>\<open>Response{}\<close> has empty strings and status 0.\<close>

record Response =
  Protocol :: string
  StatusCode :: int
  Headers :: string
  Body :: string

definition parseStatusCode :: "string \<Rightarrow> int \<times> error option" where
  "parseStatusCode statusCode =
     (case Atoi statusCode of
        (code, Some err) \<Rightarrow> (- 1, Some err)
      | (code, None) \<Rightarrow> (code, None))"

text \<open>\<^verbatim>\<open>FromString\<close> returns a pointer and an error: \<open>Inr (Some r)\<close> is a response with
  a nil error, \<open>Inr None\<close> is the pair of two nils, \<open>Inl\<close> is a nil response with an
  error, or a panic.\<close>

definition FromString :: "string \<Rightarrow> error + Response option" where
  "FromString response =
     (let responseSplit = Split response (CRLF @ CRLF)
      in if length responseSplit = 2 then
           let preBody = responseSplit ! 0;
               body = responseSplit ! 1;
               preBodySplit = Split preBody [CHR 0x0A];
               r = \<lparr>Protocol = [], StatusCode = 0, Headers = Join (tl preBodySplit) [CHR 0x0A],
                    Body = body\<rparr>
           in if HasPrefix (hd preBodySplit) ''HTTP'' then
                let statusLineSplit = Split (hd preBodySplit) '' '' in
                andThen (indexAt statusLineSplit 1) (\<lambda>field.
                  case parseStatusCode field of
                    (statusCode, Some err) \<Rightarrow> Inl err
                  | (statusCode, None) \<Rightarrow>
                      Inr (Some (r\<lparr>Protocol := hd statusLineSplit, StatusCode := statusCode\<rparr>)))
              else Inr (Some r)
         else Inr None)"

text \<open>\<^verbatim>\<open>strings.TrimSpace\<close> removes, at both ends, every UTF-8 encoded code point with
  the Unicode White Space property: six ASCII characters, U+0085, U+00A0, U+1680,
  U+2000 to U+200A, U+2028, U+2029, U+202F, U+205F and U+3000.\<close>

definition spaceSeqs :: "string list" where
  "spaceSeqs =
     [[CHR 0x09], [CHR 0x0A], [CHR 0x0B], [CHR 0x0C], [CHR 0x0D], [CHR 0x20],
      [CHR 0xC2, CHR 0x85], [CHR 0xC2, CHR 0xA0], [CHR 0xE1, CHR 0x9A, CHR 0x80],
      [CHR 0xE2, CHR 0x80, CHR 0x80], [CHR 0xE2, CHR 0x80, CHR 0x81],
      [CHR 0xE2, CHR 0x80, CHR 0x82], [CHR 0xE2, CHR 0x80, CHR 0x83],
      [CHR 0xE2, CHR 0x80, CHR 0x84], [CHR 0xE2, CHR 0x80, CHR 0x85],
      [CHR 0xE2, CHR 0x80, CHR 0x86], [CHR 0xE2, CHR 0x80, CHR 0x87],
      [CHR 0xE2, CHR 0x80, CHR 0x88], [CHR 0xE2, CHR 0x80, CHR 0x89],
      [CHR 0xE2, CHR 0x80, CHR 0x8A], [CHR 0xE2, CHR 0x80, CHR 0xA8],
      [CHR 0xE2, CHR 0x80, CHR 0xA9], [CHR 0xE2, CHR 0x80, CHR 0xAF],
      [CHR 0xE2, CHR 0x81, CHR 0x9F], [CHR 0xE3, CHR 0x80, CHR 0x80]]"

lemma spaceSeqs_nonempty: "p \<in> set spaceSeqs \<Longrightarrow> p \<noteq> []"
  by (auto simp add: spaceSeqs_def)

function trimLeftSpace :: "string \<Rightarrow> string" where
  "trimLeftSpace s =
     (case find (\<lambda>p. prefix p s) spaceSeqs of
        None \<Rightarrow> s
      | Some p \<Rightarrow> trimLeftSpace (drop (length p) s))"
  by pat_completeness auto
termination
proof (relation "measure length")
  show "wf (measure (length :: string \<Rightarrow> nat))" by simp
next
  fix s p :: string
  assume "find (\<lambda>p. prefix p s) spaceSeqs = Some p"
  then have "p \<in> set spaceSeqs" and "prefix p s"
    by (auto simp add: find_Some_iff)
  then have "p \<noteq> []" and "length p \<le> length s"
    by (simp_all add: spaceSeqs_nonempty prefix_length_le)
  then have "0 < length p" and "length p \<le> length s"
    by simp_all
  then have "length s - length p < length s" by arith
  then show "(drop (length p) s, s) \<in> measure length" by simp
qed

function trimRightSpace :: "string \<Rightarrow> string" where
  "trimRightSpace s =
     (case find (\<lambda>p. suffix p s) spaceSeqs of
        None \<Rightarrow> s
      | Some p \<Rightarrow> trimRightSpace (take (length s - length p) s))"
  by pat_completeness auto
termination
proof (relation "measure length")
  show "wf (measure (length :: string \<Rightarrow> nat))" by simp
next
  fix s p :: string
  assume "find (\<lambda>p. suffix p s) spaceSeqs = Some p"
  then have "p \<in> set spaceSeqs" and "suffix p s"
    by (auto simp add: find_Some_iff)
  then have "p \<noteq> []" and "length p \<le> length s"
    by (simp_all add: spaceSeqs_nonempty suffix_length_le)
  then have "0 < length p" and "length p \<le> length s"
    by simp_all
  then have "length s - length p < length s" by arith
  then show "(take (length s - length p) s, s) \<in> measure length" by simp
qed

declare trimLeftSpace.simps [simp del] trimRightSpace.simps [simp del]

definition TrimSpace :: "string \<Rightarrow> string" where
  "TrimSpace s = trimRightSpace (trimLeftSpace s)"

text \<open>The loop of \<^verbatim>\<open>extractRedirectURI\<close> over the header lines: the first line without
  a colon ends the search, the first line whose text before its first colon is exactly
  \<^verbatim>\<open>Location\<close> gives the result.\<close>

fun extractLoop :: "string list \<Rightarrow> string" where
  "extractLoop [] = []"
| "extractLoop (header # rest) =
     (case Index header '':'' of
        Some indexOfSeparator \<Rightarrow>
          if take indexOfSeparator header = ''Location'' then
            TrimSpace (TrimSuffix (TrimSuffix (drop (indexOfSeparator + 1) header) [CHR 0x0D])
              [CHR 0x0A])
          else extractLoop rest
      | None \<Rightarrow> [])"

definition extractRedirectURI :: "string \<Rightarrow> string" where
  "extractRedirectURI headers = extractLoop (Split headers [CHR 0x0A])"

text \<open>\<^verbatim>\<open>HandleRedirects\<close>. \<^verbatim>\<open>Get\<close> opens a TCP connection; here it is the parameter
  \<open>get\<close>, which answers the \<open>n\<close>-th fetch of this call for a given URI. The list
  \<open>fetched\<close> records the URIs requested so far; it is returned with the result.\<close>

function HandleRedirects ::
  "(nat \<Rightarrow> string \<Rightarrow> error + string) \<Rightarrow> Response option \<Rightarrow> string \<Rightarrow> int \<Rightarrow> string list
     \<Rightarrow> (error + string) \<times> string list" where
  "HandleRedirects get response responseString redirectCount fetched =
     (if redirectCount < 5 then
        (case response of
           None \<Rightarrow> (Inl (Panic NilDereference), fetched)
         | Some r \<Rightarrow>
             if StatusCode r \<ge> 301 \<and> StatusCode r \<le> 303 then
               let redirectURI = extractRedirectURI (Headers r) in
               if redirectURI \<noteq> [] then
                 (case get (length fetched) redirectURI of
                    Inl err \<Rightarrow> (Inl err, fetched @ [redirectURI])
                  | Inr responseString' \<Rightarrow>
                      (case FromString responseString' of
                         Inl err \<Rightarrow> (Inl err, fetched @ [redirectURI])
                       | Inr response' \<Rightarrow>
                           HandleRedirects get response' responseString' (redirectCount + 1)
                             (fetched @ [redirectURI])))
               else (Inl (ErrorString ''Bad redirect URI in Location header''), fetched)
             else (Inr responseString, fetched))
      else (Inl (ErrorString ''Exceeded 5 redirects!''), fetched))"
  by pat_completeness auto
termination
  by (relation "measure (\<lambda>(get, response, responseString, redirectCount, fetched).
        nat (5 - redirectCount))") auto

declare HandleRedirects.simps [simp del]

section \<open>Derived notions used in the statements\<close>

text \<open>A packet as the wire format has it: one kind byte, four bytes of sequence number,
  four of address, two of port, and at most 1013 bytes of payload.\<close>

definition validPacket :: "UDPPacket \<Rightarrow> bool" where
  "validPacket p =
     (length (pType p) = 1 \<and> length (seqNo p) = 4 \<and> length (peerAddr p) = 4 \<and>
      length (peerPort p) = 2 \<and> length (payload p) \<le> 1013)"

text \<open>What \<^verbatim>\<open>makePacket\<close> reads from the host string: it accepts a host that has a
  colon and at most four dot-separated sections before it; the address bytes are the
  section values, padded with zeros, and the port is the text between the first and the
  second colon.\<close>

definition hostAccepted :: "string \<Rightarrow> bool" where
  "hostAccepted host =
     (length (Split (hd (Split host '':'')) ''.'') \<le> 4 \<and> 2 \<le> length (Split host '':''))"

definition hostAddr :: "string \<Rightarrow> byte list" where
  "hostAddr host =
     (let sections = Split (hd (Split host '':'')) ''.''
      in map (\<lambda>section. word_of_int (fst (Atoi section))) sections
           @ replicate (4 - length sections) 0)"

definition hostPort :: "string \<Rightarrow> byte list" where
  "hostPort host = PutUint16 (word_of_int (fst (Atoi (Split host '':'' ! 1))))"

text \<open>Reassembly of a list of datagrams in order: each is decoded with
  \<^verbatim>\<open>ParsePacket\<close> and the payloads are concatenated.\<close>

fun reassemble :: "byte list list \<Rightarrow> error + string" where
  "reassemble [] = Inr []"
| "reassemble (b # bs) =
     andThen (ParsePacket b) (\<lambda>p.
     andThen (reassemble bs) (\<lambda>rest. Inr (stringOfBytes (payload p) @ rest)))"

text \<open>The bytes of a DATA packet that carries \<open>chunk\<close>.\<close>

definition dataPacketBytes :: "string \<Rightarrow> uint32 \<Rightarrow> string \<Rightarrow> byte list" where
  "dataPacketBytes host s chunk =
     [0] @ PutUint32 s @ hostAddr host @ hostPort host @ bytesOfString chunk"

text \<open>The bytes of a packet without payload, as \<^verbatim>\<open>getBytesFromPacket\<close> lays them
  out.\<close>

definition controlPacketBytes :: "string \<Rightarrow> byte \<Rightarrow> uint32 \<Rightarrow> byte list" where
  "controlPacketBytes host kind s = [kind] @ PutUint32 s @ hostAddr host @ hostPort host"

text \<open>What holds of the variables of the receive loop between iterations: either no
  DATA packet has been seen, or the buffer has five slots more than the number of
  response packets, which is at least 1.\<close>

definition getInvariant :: "getState \<Rightarrow> bool" where
  "getInvariant st =
     (if numOfResponsePackets st = - 1 then True
      else 1 \<le> numOfResponsePackets st \<and>
           length (responsePayload st) = nat (numOfResponsePackets st + 5))"





text \<open>A chain of redirects as \<^verbatim>\<open>HandleRedirects\<close> walks it. Each step is the location
  taken from the response at hand, the text that the fetch numbered \<open>n\<close> returns for
  it, and the response parsed from that text; the response at hand has a status from
  301 to 303 and a usable \<^verbatim>\<open>Location\<close>. The last response of a chain is the one parsed
  in its last step, or the response at hand when the chain has no step; the last text
  likewise.\<close>

definition isRedirect :: "Response \<Rightarrow> bool" where
  "isRedirect r = (301 \<le> StatusCode r \<and> StatusCode r \<le> 303)"

fun follows ::
  "(nat \<Rightarrow> string \<Rightarrow> error + string) \<Rightarrow> nat \<Rightarrow> Response
     \<Rightarrow> (string \<times> string \<times> Response) list \<Rightarrow> bool" where
  "follows get n r [] = True"
| "follows get n r ((uri, reply, r') # rest) =
     (isRedirect r \<and> extractRedirectURI (Headers r) = uri \<and> uri \<noteq> []
      \<and> get n uri = Inr reply \<and> FromString reply = Inr (Some r')
      \<and> follows get (Suc n) r' rest)"



section \<open>Lemmas about the codec and the segmenter\<close>

lemma stringOfBytes_bytesOfString [simp]: "stringOfBytes (bytesOfString s) = s"
  by (simp add: stringOfBytes_def bytesOfString_def unat_of_nat map_idI)

lemma length_bytesOfString [simp]: "length (bytesOfString s) = length s"
  by (simp add: bytesOfString_def)

lemma Uint32_PutUint32 [simp]: "Uint32 (PutUint32 v) = Inr v"
proof -
  have "or (ucast (ucast v :: byte))
          (or (push_bit 8 (ucast (ucast (drop_bit 8 v) :: byte)))
          (or (push_bit 16 (ucast (ucast (drop_bit 16 v) :: byte)))
              (push_bit 24 (ucast (ucast (drop_bit 24 v) :: byte))))) = v" (is "?w = v")
  proof (rule bit_word_eqI)
    fix n :: nat
    assume "n < LENGTH(32)"
    then have n: "n < 32" by simp
    consider "n < 8" | "8 \<le> n" "n < 16" | "16 \<le> n" "n < 24" | "24 \<le> n" "n < 32"
      using n by linarith
    then show "bit ?w n = bit v n"
      by cases (auto simp add: bit_simps)
  qed
  then show ?thesis
    by (simp add: Uint32_def PutUint32_def)
qed

lemma length_PutUint32 [simp]: "length (PutUint32 v) = 4"
  by (simp add: PutUint32_def)

lemma length_PutUint16 [simp]: "length (PutUint16 v) = 2"
  by (simp add: PutUint16_def)

lemma ParsePacket_header:
  assumes "length t = 1" "length s = 4" "length a = 4" "length p = 2"
  shows "ParsePacket (t @ s @ a @ p @ pl) =
           Inr \<lparr>pType = t, seqNo = s, peerAddr = a, peerPort = p, payload = pl\<rparr>"
proof -
  from assms(1) obtain t0 where t: "t = [t0]"
    by (cases t) simp_all
  show ?thesis
    using assms
    by (simp add: ParsePacket_def indexAt_def subslice_def sliceFrom_def t)
qed

lemma ParsePacket_short:
  "length data < 11 \<Longrightarrow>
     ParsePacket data = Inl (Panic (if data = [] then IndexOutOfRange else SliceBoundsOutOfRange))"
  by (auto simp add: ParsePacket_def indexAt_def subslice_def sliceFrom_def)

lemma ParsePacket_long:
  "11 \<le> length data \<Longrightarrow>
     ParsePacket data =
       Inr \<lparr>pType = [data ! 0], seqNo = take 4 (drop 1 data), peerAddr = take 4 (drop 5 data),
            peerPort = take 2 (drop 9 data), payload = drop 11 data\<rparr>"
  by (auto simp add: ParsePacket_def indexAt_def subslice_def sliceFrom_def)


lemma fillAddr_eq:
  "i \<le> length bs \<Longrightarrow> fillAddr bs i sections =
     (if i + length sections \<le> length bs
      then Inr (take i bs @ map (\<lambda>section. word_of_int (fst (Atoi section))) sections
                  @ drop (i + length sections) bs)
      else Inl (Panic IndexOutOfRange))"
proof (induction sections arbitrary: bs i)
  case Nil
  then show ?case by simp
next
  case (Cons sec rest)
  show ?case
  proof (cases "i < length bs")
    case False
    then show ?thesis by (simp add: setAt_def)
  next
    case True
    then have "take (Suc i) (bs[i := v]) = take i bs @ [v]" for v
      by (simp add: take_Suc_conv_app_nth)
    with True show ?thesis
      by (simp add: setAt_def Cons.IH)
  qed
qed

lemma makePacket_eq:
  "makePacket t s host pl =
     (if hostAccepted host
      then Inr \<lparr>pType = [ucast t], seqNo = PutUint32 s, peerAddr = hostAddr host,
                peerPort = hostPort host, payload = bytesOfString pl\<rparr>
      else Inl (Panic IndexOutOfRange))"
  by (simp add: makePacket_def Let_def fillAddr_eq indexAt_def hostAccepted_def hostAddr_def
      hostPort_def)

lemma length_hostAddr: "hostAccepted host \<Longrightarrow> length (hostAddr host) = 4"
  by (simp add: hostAccepted_def hostAddr_def Let_def)

lemma length_hostPort [simp]: "length (hostPort host) = 2"
  by (simp add: hostPort_def)

lemma Split_not_Nil: "Split s sep \<noteq> []"
  by (subst Split.simps) (simp split: option.split)


lemma numPacketsOf_div: "numPacketsOf P = (length P + 1012) div 1013"
proof -
  define n where "n = length P"
  define q where "q = (n + 1012) div 1013"
  define r where "r = (n + 1012) mod 1013"
  have eq: "n + 1012 = 1013 * q + r"
    by (simp add: q_def r_def)
  have r: "r < 1013"
    by (simp add: r_def)
  have up: "real n / 1013 \<le> real q"
  proof -
    from eq r have "n \<le> 1013 * q" by linarith
    then have "real n \<le> 1013 * real q"
      by (metis of_nat_le_iff of_nat_mult of_nat_numeral)
    then show ?thesis by simp
  qed
  have lo: "real q - 1 < real n / 1013"
  proof -
    from eq r have "1013 * q < n + 1013" by linarith
    then have "1013 * real q < real n + 1013"
      by (metis of_nat_less_iff of_nat_mult of_nat_numeral of_nat_add)
    then show ?thesis by simp
  qed
  have "\<lceil>real n / 1013\<rceil> = int q"
    using up lo by (intro ceiling_unique) simp_all
  then show ?thesis by (simp add: q_def n_def numPacketsOf_def)
qed

lemma makePacket_data:
  "hostAccepted host \<Longrightarrow>
     \<exists>p. makePacket 0 s host chunk = Inr p \<and> getBytesFromPacket p = dataPacketBytes host s chunk"
  by (simp add: makePacket_eq getBytesFromPacket_def dataPacketBytes_def)

lemma slice_bytesOfString:
  "lo \<le> hi \<Longrightarrow> hi \<le> length P \<Longrightarrow>
     subslice (bytesOfString P) lo hi = Inr (bytesOfString (take (hi - lo) (drop lo P)))"
  by (simp add: subslice_def bytesOfString_def take_map drop_map)

lemma chunkLoop_eq:
  assumes host: "hostAccepted host"
    and len: "1013 * (k - 1) \<le> length P"
    and pk: "length pk = k"
    and m: "Suc m \<le> k"
  shows "chunkLoop host (bytesOfString P) k (Suc m) (1013 * m) s pk =
           Inr (take m pk
                  @ map (\<lambda>j. dataPacketBytes host (s + word_of_nat (j - m))
                                 (take 1013 (drop (1013 * j) P))) [m..<k - 1]
                  @ drop (k - 1) pk,
                1013 * (k - 1), s + word_of_nat (k - 1 - m))"
  using m pk
proof (induction "k - Suc m" arbitrary: m s pk)
  case 0
  then have km: "k = Suc m" by simp
  have "chunkLoop host (bytesOfString P) k (Suc m) (1013 * m) s pk = Inr (pk, 1013 * m, s)"
    by (subst chunkLoop.simps) (simp add: km)
  then show ?case
    by (simp add: km)
next
  case (Suc d)
  then have lt: "Suc m < k" by simp
  let ?v = "dataPacketBytes host s (take 1013 (drop (1013 * m) P))"
  from lt len have bound: "1013 * m + 1013 \<le> length P"
    by arith
  have sl: "subslice (bytesOfString P) (1013 * m) (1013 * m + 1013)
              = Inr (bytesOfString (take 1013 (drop (1013 * m) P)))"
    using bound by (simp add: slice_bytesOfString)
  have set: "setAt pk m ?v = Inr (pk[m := ?v])"
    using lt Suc.prems by (simp add: setAt_def)
  obtain p where p: "makePacket 0 s host (take 1013 (drop (1013 * m) P)) = Inr p"
      "getBytesFromPacket p = ?v"
    using makePacket_data [OF host] by blast
  have c: "1013 * m + 1013 = 1013 * Suc m" by simp
  have "chunkLoop host (bytesOfString P) k (Suc m) (1013 * m) s pk =
          chunkLoop host (bytesOfString P) k (Suc m + 1) (1013 * m + 1013) (s + 1) (pk[m := ?v])"
    using lt by (subst chunkLoop.simps) (simp only: sl p set andThen_Inr if_True stringOfBytes_bytesOfString diff_Suc_1)
  then have step: "chunkLoop host (bytesOfString P) k (Suc m) (1013 * m) s pk =
              chunkLoop host (bytesOfString P) k (Suc (Suc m)) (1013 * Suc m) (s + 1) (pk[m := ?v])"
    by (simp only: c Suc_eq_plus1)
  have ih: "chunkLoop host (bytesOfString P) k (Suc (Suc m)) (1013 * Suc m) (s + 1) (pk[m := ?v]) =
           Inr (take (Suc m) (pk[m := ?v])
                  @ map (\<lambda>j. dataPacketBytes host (s + 1 + word_of_nat (j - Suc m))
                                 (take 1013 (drop (1013 * j) P))) [Suc m..<k - 1]
                  @ drop (k - 1) (pk[m := ?v]),
                1013 * (k - 1), s + 1 + word_of_nat (k - 1 - Suc m))"
    using Suc.hyps(1) [of "Suc m" "pk[m := ?v]" "s + 1"] Suc.hyps(2) lt Suc.prems by simp
  have t: "take (Suc m) (pk[m := ?v]) = take m pk @ [?v]"
    using lt Suc.prems by (simp add: take_Suc_conv_app_nth)
  have d: "drop (k - 1) (pk[m := ?v]) = drop (k - 1) pk"
    using lt by simp
  have idx: "[m..<k - 1] = m # [Suc m..<k - 1]"
    using lt by (simp add: upt_conv_Cons)
  have shift: "map (\<lambda>j. dataPacketBytes host (s + 1 + word_of_nat (j - Suc m))
                                 (take 1013 (drop (1013 * j) P))) [Suc m..<k - 1]
             = map (\<lambda>j. dataPacketBytes host (s + word_of_nat (j - m))
                                 (take 1013 (drop (1013 * j) P))) [Suc m..<k - 1]"
  proof (rule map_cong [OF refl])
    fix j assume "j \<in> set [Suc m..<k - 1]"
    then have "j - m = Suc (j - Suc m)" by auto
    then show "dataPacketBytes host (s + 1 + word_of_nat (j - Suc m)) (take 1013 (drop (1013 * j) P))
             = dataPacketBytes host (s + word_of_nat (j - m)) (take 1013 (drop (1013 * j) P))"
      by (simp add: add.assoc)
  qed
  have last: "s + 1 + word_of_nat (k - 1 - Suc m) = s + word_of_nat (k - 1 - m)"
  proof -
    from lt have "k - 1 - m = Suc (k - 1 - Suc m)" by simp
    then show ?thesis by (simp add: add.assoc)
  qed
  show ?case
    by (simp only: step ih t d shift last idx) simp
qed

lemma numPacketsOf_bounds:
  "length P \<le> 1013 * numPacketsOf P" "1013 * numPacketsOf P < length P + 1013"
proof -
  define n where "n = length P"
  define q where "q = (n + 1012) div 1013"
  define r where "r = (n + 1012) mod 1013"
  have eq: "n + 1012 = 1013 * q + r"
    by (simp add: q_def r_def)
  have r: "r < 1013"
    by (simp add: r_def)
  have k: "numPacketsOf P = q"
    by (simp add: numPacketsOf_div q_def n_def)
  from eq r show "length P \<le> 1013 * numPacketsOf P"
    unfolding k n_def [symmetric] by linarith
  from eq r show "1013 * numPacketsOf P < length P + 1013"
    unfolding k n_def [symmetric] by linarith
qed

lemma concat_chunks:
  "concat (map (\<lambda>j. take m (drop (m * j) xs)) [0..<k]) = take (m * k) xs"
proof (induction k)
  case 0
  then show ?case by simp
next
  case (Suc k)
  have "take (m * k + m) xs = take (m * k) xs @ take m (drop (m * k) xs)"
    by (rule take_add)
  with Suc show ?case by (simp add: add.commute)
qed

lemma ParsePacket_dataPacketBytes:
  "hostAccepted host \<Longrightarrow>
     ParsePacket (dataPacketBytes host s chunk) =
       Inr \<lparr>pType = [0], seqNo = PutUint32 s, peerAddr = hostAddr host,
            peerPort = hostPort host, payload = bytesOfString chunk\<rparr>"
  unfolding dataPacketBytes_def
  by (rule ParsePacket_header) (simp_all add: length_hostAddr)

lemma reassemble_map:
  "hostAccepted host \<Longrightarrow>
     reassemble (map (\<lambda>j. dataPacketBytes host (f j) (c j)) js) = Inr (concat (map c js))"
  by (induction js) (simp_all add: ParsePacket_dataPacketBytes)

lemma getDataPacketBytes_empty: "getDataPacketBytes s host [] = Inr ([], 0)"
  by (simp add: getDataPacketBytes_def numPacketsOf_div chunkLoop.simps)

lemma getDataPacketBytes_eq:
  assumes host: "hostAccepted host"
    and ne: "P \<noteq> []"
    and ok: "length P \<le> 1013 \<or> length P mod 1013 \<noteq> 0"
  shows "getDataPacketBytes s host P =
           Inr (map (\<lambda>j. dataPacketBytes host (s + word_of_nat j) (take 1013 (drop (1013 * j) P)))
                  [0..<numPacketsOf P], numPacketsOf P)"
proof -
  define k where "k = numPacketsOf P"
  have b1: "length P \<le> 1013 * k" and b2: "1013 * k < length P + 1013"
    unfolding k_def by (rule numPacketsOf_bounds)+
  from ne have pos: "0 < length P" by simp
  with b1 have k1: "1 \<le> k" by (cases k) simp_all
  show ?thesis
  proof (cases "k = 1")
    case True
    with b1 have short: "length P \<le> 1013" by simp
    obtain p where p: "makePacket 0 s host P = Inr p" "getBytesFromPacket p = dataPacketBytes host s P"
      using makePacket_data [OF host] by blast
    have "getDataPacketBytes s host P = Inr ([dataPacketBytes host s P], 1)"
      using True by (simp add: getDataPacketBytes_def k_def [symmetric] p setAt_def)
    with True short show ?thesis
      by (simp add: k_def [symmetric])
  next
    case False
    with k1 have k2: "2 \<le> k" by simp
    with b2 have long: "1013 < length P" by linarith
    with ok have res: "0 < length P mod 1013" by simp
    from b2 k1 have inside: "1013 * (k - 1) \<le> length P" by linarith
    let ?c = "\<lambda>j. take 1013 (drop (1013 * j) P)"
    let ?D = "\<lambda>j. dataPacketBytes host (s + word_of_nat j) (?c j)"
    have loop: "chunkLoop host (bytesOfString P) k (Suc 0) (1013 * 0) s (replicate k []) =
           Inr (take 0 (replicate k [])
                  @ map (\<lambda>j. dataPacketBytes host (s + word_of_nat (j - 0)) (?c j)) [0..<k - 1]
                  @ drop (k - 1) (replicate k []),
                1013 * (k - 1), s + word_of_nat (k - 1 - 0))"
      using k1 by (intro chunkLoop_eq [OF host inside]) simp_all
    from k1 have kk: "k - (k - Suc 0) = Suc 0" by simp
    have dr: "drop (k - 1) (replicate k ([] :: byte list)) = [[]]"
      by (simp add: kk)
    have loop': "chunkLoop host (bytesOfString P) k 1 0 s (replicate k []) =
           Inr (map ?D [0..<k - 1] @ [[]], 1013 * (k - 1), s + word_of_nat (k - 1))"
      using loop unfolding dr by simp
    have tail: "sliceFrom (bytesOfString P) (1013 * (k - 1)) =
                  Inr (bytesOfString (drop (1013 * (k - 1)) P))"
      using inside by (simp add: sliceFrom_def subslice_def bytesOfString_def drop_map)
    have lastc: "drop (1013 * (k - 1)) P = ?c (k - 1)"
      using b1 k1 by simp
    have lastD: "dataPacketBytes host (s + word_of_nat (k - 1)) (drop (1013 * (k - 1)) P) = ?D (k - 1)"
      by (simp only: lastc [symmetric])
    obtain p where p: "makePacket 0 (s + word_of_nat (k - 1)) host (drop (1013 * (k - 1)) P) = Inr p"
        "getBytesFromPacket p = ?D (k - 1)"
      using makePacket_data [OF host] lastD by metis
    have upd: "setAt (map ?D [0..<k - 1] @ [[]]) (k - 1) (?D (k - 1)) = Inr (map ?D [0..<k - 1] @ [?D (k - 1)])"
      by (simp add: setAt_def list_update_append)
    have idx: "[0..<k] = [0..<k - 1] @ [k - 1]"
      using k1 by (metis Suc_pred' less_eq_Suc_le upt_Suc_append zero_le One_nat_def)
    have "getDataPacketBytes s host P = Inr (map ?D [0..<k - 1] @ [?D (k - 1)], k)"
      unfolding getDataPacketBytes_def Let_def k_def [symmetric]
      apply (subst if_not_P [OF False])
      apply (subst loop')
      apply (simp only: andThen_Inr prod.case)
      apply (subst if_P [OF res])
      apply (simp only: tail andThen_Inr stringOfBytes_bytesOfString p upd)
      done
    then show ?thesis
      by (simp add: k_def [symmetric] idx)
  qed
qed

section \<open>Packet codec: claims\<close>

text \<open>C8. Decoding the bytes produced by encoding a valid packet (one kind byte, four
  bytes of sequence number, four of address, two of port, at most 1013 bytes of payload)
  yields the same packet.\<close>

theorem codec_inverse: "validPacket p \<Longrightarrow> ParsePacket (getBytesFromPacket p) = Inr p"
  by (simp add: validPacket_def getBytesFromPacket_def ParsePacket_header)

theorem codec_inverse_witness:
  "validPacket \<lparr>pType = [0], seqNo = [0, 0, 0, 4], peerAddr = [127, 0, 0, 1],
                peerPort = [31, 71], payload = [104, 105]\<rparr>
   \<and> ParsePacket (getBytesFromPacket \<lparr>pType = [0], seqNo = [0, 0, 0, 4],
          peerAddr = [127, 0, 0, 1], peerPort = [31, 71], payload = [104, 105]\<rparr>)
       = Inr \<lparr>pType = [0], seqNo = [0, 0, 0, 4], peerAddr = [127, 0, 0, 1],
              peerPort = [31, 71], payload = [104, 105]\<rparr>"
proof -
  have v: "validPacket \<lparr>pType = [0], seqNo = [0, 0, 0, 4], peerAddr = [127, 0, 0, 1],
                peerPort = [31, 71], payload = [104, 105]\<rparr>"
    by (simp add: validPacket_def)
  from v codec_inverse [OF v] show ?thesis by simp
qed

text \<open>C2, as the code has it. \<^verbatim>\<open>ParsePacket\<close> returns no error value and checks no
  length. On every input shorter than 11 bytes it returns no packet: the run-time bounds
  check of its first out-of-range expression panics, index out of range for the empty
  input (\<^verbatim>\<open>data[0]\<close>), slice bounds out of range for 1 to 10 bytes.\<close>

theorem ParsePacket_short_panics:
  "length data < 11 \<Longrightarrow>
     ParsePacket data = Inl (Panic (if data = [] then IndexOutOfRange else SliceBoundsOutOfRange))"
  by (rule ParsePacket_short)

theorem ParsePacket_short_panics_witness:
  "length [3, 0, 0 :: byte] < 11 \<and> ParsePacket [3, 0, 0] = Inl (Panic SliceBoundsOutOfRange)"
  using ParsePacket_short_panics [of "[3, 0, 0]"] by simp

text \<open>The claim as stated fails on the empty input: the first expression evaluated,
  \<^verbatim>\<open>data[0]\<close>, indexes past the end, and the outcome is a panic, not an error value.\<close>

theorem ParsePacket_empty_counterexample:
  "indexAt ([] :: byte list) 0 = Inl (Panic IndexOutOfRange)
   \<and> ParsePacket [] = Inl (Panic IndexOutOfRange)"
  by (simp add: ParsePacket_def indexAt_def)




section \<open>Segmenter: claims\<close>

text \<open>C1, as the code has it. For a host that \<^verbatim>\<open>makePacket\<close> accepts and a non-empty
  payload whose length is at most 1013 or not a multiple of 1013, \<^verbatim>\<open>getDataPacketBytes\<close>
  returns exactly \<open>ceil(len / 1013)\<close> datagrams; the \<open>i\<close>-th decodes to a DATA packet
  (kind byte 0) with sequence number \<open>seqNo + i\<close> (modulo \<open>2^32\<close>) and a payload of 1 to
  1013 bytes, and the payloads reassembled in order are the payload given. For the empty
  payload it returns no datagram and the count 0.\<close>

theorem segmenter_round_trip:
  assumes "hostAccepted host" and "P \<noteq> []"
    and "length P \<le> 1013 \<or> length P mod 1013 \<noteq> 0"
  shows "\<exists>packets.
           getDataPacketBytes s host P = Inr (packets, numPacketsOf P)
         \<and> length packets = numPacketsOf P
         \<and> int (numPacketsOf P) = \<lceil>real (length P) / 1013\<rceil>
         \<and> (\<forall>i < length packets. \<exists>p.
               ParsePacket (packets ! i) = Inr p \<and> pType p = [0]
             \<and> Uint32 (seqNo p) = Inr (s + word_of_nat i)
             \<and> 1 \<le> length (payload p) \<and> length (payload p) \<le> 1013)
         \<and> reassemble packets = Inr P
         \<and> getDataPacketBytes s host [] = Inr ([], 0)"
proof -
  let ?c = "\<lambda>j. take 1013 (drop (1013 * j) P)"
  let ?D = "\<lambda>j. dataPacketBytes host (s + word_of_nat j) (?c j)"
  let ?packets = "map ?D [0..<numPacketsOf P]"
  have run: "getDataPacketBytes s host P = Inr (?packets, numPacketsOf P)"
    using assms by (rule getDataPacketBytes_eq)
  have cnt: "int (numPacketsOf P) = \<lceil>real (length P) / 1013\<rceil>"
  proof -
    have "0 \<le> real (length P) / 1013" by simp
    then have "0 \<le> \<lceil>real (length P) / 1013\<rceil>" by linarith
    then show ?thesis by (simp add: numPacketsOf_def)
  qed
  have each: "\<exists>p. ParsePacket (?packets ! i) = Inr p \<and> pType p = [0]
             \<and> Uint32 (seqNo p) = Inr (s + word_of_nat i)
             \<and> 1 \<le> length (payload p) \<and> length (payload p) \<le> 1013"
    if "i < length ?packets" for i
  proof -
    from that have i: "i < numPacketsOf P" by simp
    have "1013 * numPacketsOf P < length P + 1013" by (rule numPacketsOf_bounds)
    with i have "1013 * i < length P" by linarith
    then have "1 \<le> length (?c i)" by simp
    moreover have "length (?c i) \<le> 1013" by simp
    moreover have "?packets ! i = ?D i" using i by simp
    ultimately show ?thesis
      using assms(1) by (simp add: ParsePacket_dataPacketBytes)
  qed
  have "length P \<le> 1013 * numPacketsOf P" by (rule numPacketsOf_bounds)
  then have "concat (map ?c [0..<numPacketsOf P]) = P"
    by (simp add: concat_chunks)
  then have whole: "reassemble ?packets = Inr P"
    using assms(1) by (simp add: reassemble_map)
  show ?thesis
    using run cnt each whole by (intro exI [of _ ?packets] conjI allI impI getDataPacketBytes_empty) simp_all
qed


theorem segmenter_round_trip_witness:
  "hostAccepted ''127.0.0.1:8007'' \<and> ''hello world'' \<noteq> []
   \<and> (length ''hello world'' \<le> 1013 \<or> length ''hello world'' mod 1013 \<noteq> 0)
   \<and> (\<exists>packets. getDataPacketBytes 4 ''127.0.0.1:8007'' ''hello world'' = Inr (packets, 1)
         \<and> length packets = 1 \<and> reassemble packets = Inr ''hello world'')"
proof -
  have h: "hostAccepted ''127.0.0.1:8007''" by code_simp
  have n: "numPacketsOf ''hello world'' = 1" by (simp add: numPacketsOf_div)
  from segmenter_round_trip [OF h, of "''hello world''" 4]
  obtain packets where
    "getDataPacketBytes 4 ''127.0.0.1:8007'' ''hello world''
       = Inr (packets, numPacketsOf ''hello world'')"
    "length packets = numPacketsOf ''hello world''"
    "reassemble packets = Inr ''hello world''"
    by auto
  with h n show ?thesis by auto
qed

text \<open>The claim as stated fails on the empty payload: the count is
  \<open>ceil(0 / 1013) = 0\<close>, not \<open>max(1, 0) = 1\<close>, and no datagram is produced.\<close>

theorem segmenter_empty_counterexample:
  "getDataPacketBytes 4 ''127.0.0.1:8007'' [] = Inr ([], 0)
   \<and> max 1 (nat \<lceil>real (length ([] :: string)) / 1013\<rceil>) = 1"
  by (simp add: getDataPacketBytes_empty)

text \<open>Outside the statement above: when the length is a multiple of 1013 and at least
  2026, the count includes the last chunk but the slot for it is never filled (the
  residue is 0), so the last datagram is a nil slice and the last 1013 bytes are not in
  any datagram.\<close>

lemma getDataPacketBytes_exact_multiple:
  assumes host: "hostAccepted host" and m: "2 \<le> m" and len: "length P = 1013 * m"
  shows "getDataPacketBytes s host P =
           Inr (map (\<lambda>j. dataPacketBytes host (s + word_of_nat j) (take 1013 (drop (1013 * j) P)))
                  [0..<m - 1] @ [[]], m)"
proof -
  define k where "k = numPacketsOf P"
  have b1: "length P \<le> 1013 * k" and b2: "1013 * k < length P + 1013"
    unfolding k_def by (rule numPacketsOf_bounds)+
  with len have km: "k = m" by linarith
  from m km have k1: "Suc 0 \<le> k" and ne: "k \<noteq> 1" by simp_all
  from len km have inside: "1013 * (k - 1) \<le> length P" by simp
  from len have res: "\<not> 0 < length P mod 1013" by simp
  let ?c = "\<lambda>j. take 1013 (drop (1013 * j) P)"
  let ?D = "\<lambda>j. dataPacketBytes host (s + word_of_nat j) (?c j)"
  have loop: "chunkLoop host (bytesOfString P) k (Suc 0) (1013 * 0) s (replicate k []) =
         Inr (take 0 (replicate k [])
                @ map (\<lambda>j. dataPacketBytes host (s + word_of_nat (j - 0)) (?c j)) [0..<k - 1]
                @ drop (k - 1) (replicate k []),
              1013 * (k - 1), s + word_of_nat (k - 1 - 0))"
    using k1 by (intro chunkLoop_eq [OF host inside]) simp_all
  from k1 have kk: "k - (k - Suc 0) = Suc 0" by simp
  have dr: "drop (k - 1) (replicate k ([] :: byte list)) = [[]]"
    by (simp add: kk)
  have loop': "chunkLoop host (bytesOfString P) k 1 0 s (replicate k []) =
         Inr (map ?D [0..<k - 1] @ [[]], 1013 * (k - 1), s + word_of_nat (k - 1))"
    using loop unfolding dr by simp
  have "getDataPacketBytes s host P = Inr (map ?D [0..<k - 1] @ [[]], k)"
    unfolding getDataPacketBytes_def Let_def k_def [symmetric]
    apply (subst if_not_P [OF ne])
    apply (subst loop')
    apply (simp only: andThen_Inr prod.case)
    apply (subst if_not_P [OF res])
    apply (rule refl)
    done
  then show ?thesis by (simp only: km)
qed

lemma getDataPacketBytes_2026:
  "\<exists>first. getDataPacketBytes 4 ''127.0.0.1:8007'' (replicate 2026 CHR ''a'') = Inr ([first, []], 2)
     \<and> reassemble [first, []] = Inl (Panic IndexOutOfRange)"
proof -
  have h: "hostAccepted ''127.0.0.1:8007''" by code_simp
  have "getDataPacketBytes 4 ''127.0.0.1:8007'' (replicate 2026 CHR ''a'') =
          Inr (map (\<lambda>j. dataPacketBytes ''127.0.0.1:8007'' (4 + word_of_nat j)
                 (take 1013 (drop (1013 * j) (replicate 2026 CHR ''a'')))) [0..<2 - 1] @ [[]], 2)"
    by (rule getDataPacketBytes_exact_multiple [OF h]) simp_all
  moreover have e: "ParsePacket [] = Inl (Panic IndexOutOfRange)"
    using ParsePacket_short [of "[]"] by simp
  have "reassemble [b, []] = Inl (Panic IndexOutOfRange)"
    if "b = dataPacketBytes ''127.0.0.1:8007'' s c" for b s c
    using that h by (simp add: ParsePacket_dataPacketBytes e)
  ultimately show ?thesis by simp
qed

section \<open>Response parser: claim\<close>

text \<open>C10. For every input that does not split into exactly two parts around the
  separator CRLF CRLF, \<^verbatim>\<open>FromString\<close> returns a nil response together with a nil
  error.\<close>

theorem FromString_nil_nil:
  "length (Split response (CRLF @ CRLF)) \<noteq> 2 \<Longrightarrow> FromString response = Inr None"
  by (simp add: FromString_def Let_def)

theorem FromString_nil_nil_witness:
  "length (Split ''HTTP/1.0 200 OK'' (CRLF @ CRLF)) \<noteq> 2
   \<and> FromString ''HTTP/1.0 200 OK'' = Inr None"
proof -
  have "length (Split ''HTTP/1.0 200 OK'' (CRLF @ CRLF)) = 1" by code_simp
  then have n: "length (Split ''HTTP/1.0 200 OK'' (CRLF @ CRLF)) \<noteq> 2" by simp
  from n FromString_nil_nil [OF n] show ?thesis by simp
qed

section \<open>Handshake: claim\<close>

lemma length_readInto [simp]: "length (readInto n d) = n"
  by (simp add: readInto_def)

lemma ParsePacket_readInto_11:
  "\<exists>p. ParsePacket (readInto 11 d) = Inr p \<and> length (pType p) = 1 \<and> length (seqNo p) = 4"
  by (simp add: ParsePacket_long)

lemma makePacket_same_host:
  "makePacket t s host pl = Inr p \<Longrightarrow>
     makePacket t' s' host pl' =
       Inr \<lparr>pType = [ucast t'], seqNo = PutUint32 s', peerAddr = peerAddr p,
            peerPort = peerPort p, payload = bytesOfString pl'\<rparr>"
  by (auto simp add: makePacket_eq split: if_splits)

text \<open>C4. After the SYN of an iteration has been written and a datagram has been read
  and parsed: if it is not a SYN_ACK (kind byte 3) or its sequence number is not
  \<open>seqInit + 1\<close>, it is discarded and the loop starts over, exactly as after a read that
  timed out (it writes its SYN again and waits for the next read; nothing else is
  written and the function does not return); if it is a SYN_ACK with sequence number
  \<open>seqInit + 1\<close>, exactly one more datagram is written, an ACK (kind byte 1) with
  sequence number \<open>receivedSeq + 1\<close> and no payload, and the function returns.\<close>

theorem handshake_reply:
  assumes "makePacket 2 seqInit host (decimal numPackets) = Inr syn"
    and "ParsePacket (readInto 11 d) = Inr synAck"
    and "Uint32 (seqNo synAck) = Inr receivedSeq"
  shows "(pType synAck \<noteq> [3] \<or> receivedSeq \<noteq> seqInit + 1 \<longrightarrow>
            handshake host numPackets (Datagram d # rest)
              = afterWrite (getBytesFromPacket syn) (handshake host numPackets rest)
          \<and> handshake host numPackets (Datagram d # rest)
              = handshake host numPackets (ReadErr # rest))
       \<and> (pType synAck = [3] \<and> receivedSeq = seqInit + 1 \<longrightarrow>
            (\<exists>ack. makePacket 1 (receivedSeq + 1) host [] = Inr ack
                 \<and> pType ack = [1] \<and> Uint32 (seqNo ack) = Inr (receivedSeq + 1)
                 \<and> payload ack = []
                 \<and> handshake host numPackets (Datagram d # rest)
                     = Inr ([getBytesFromPacket syn, getBytesFromPacket ack], True, rest)))"
proof -
  from ParsePacket_readInto_11 [of d] assms(2)
  have one: "length (pType synAck) = 1" by auto
  then obtain k where k: "pType synAck = [k]"
    by (cases "pType synAck") simp_all
  then have idx: "indexAt (pType synAck) 0 = Inr k"
    by (simp add: indexAt_def)
  have ack: "makePacket 1 (receivedSeq + 1) host [] =
               Inr \<lparr>pType = [1], seqNo = PutUint32 (receivedSeq + 1), peerAddr = peerAddr syn,
                    peerPort = peerPort syn, payload = []\<rparr>"
    using makePacket_same_host [OF assms(1), of 1 "receivedSeq + 1" "[]"]
    by (simp add: bytesOfString_def)
  show ?thesis
    using assms k idx ack by (auto simp add: handshake.simps)
qed

theorem handshake_reply_witness:
  "handshake ''127.0.0.1:8007'' 2 [Datagram [3, 0, 0, 0, 2, 127, 0, 0, 1, 31, 71]] =
     Inr ([[2, 0, 0, 0, 1, 127, 0, 0, 1, 31, 71, 50], [1, 0, 0, 0, 3, 127, 0, 0, 1, 31, 71]],
          True, [])
   \<and> handshake ''127.0.0.1:8007'' 2 [Datagram [3, 0, 0, 0, 9, 127, 0, 0, 1, 31, 71]] =
     Inr ([[2, 0, 0, 0, 1, 127, 0, 0, 1, 31, 71, 50], [2, 0, 0, 0, 1, 127, 0, 0, 1, 31, 71, 50]],
          False, [])"
proof -
  let ?syn = "\<lparr>pType = [2], seqNo = [0, 0, 0, 1], peerAddr = [127, 0, 0, 1],
               peerPort = [31, 71], payload = [50]\<rparr> :: UDPPacket"
  let ?ack = "\<lparr>pType = [1], seqNo = [0, 0, 0, 3], peerAddr = [127, 0, 0, 1],
               peerPort = [31, 71], payload = []\<rparr> :: UDPPacket"
  let ?good = "\<lparr>pType = [3], seqNo = [0, 0, 0, 2], peerAddr = [127, 0, 0, 1],
               peerPort = [31, 71], payload = []\<rparr> :: UDPPacket"
  let ?bad = "\<lparr>pType = [3], seqNo = [0, 0, 0, 9], peerAddr = [127, 0, 0, 1],
               peerPort = [31, 71], payload = []\<rparr> :: UDPPacket"
  have syn: "makePacket 2 seqInit ''127.0.0.1:8007'' (decimal 2) = Inr ?syn" by code_simp
  have ack: "makePacket 1 (2 + 1) ''127.0.0.1:8007'' [] = Inr ?ack" by code_simp
  have good: "ParsePacket (readInto 11 [3, 0, 0, 0, 2, 127, 0, 0, 1, 31, 71]) = Inr ?good"
    by code_simp
  have bad: "ParsePacket (readInto 11 [3, 0, 0, 0, 9, 127, 0, 0, 1, 31, 71]) = Inr ?bad"
    by code_simp
  have sg: "Uint32 (seqNo ?good) = Inr 2" by code_simp
  have sb: "Uint32 (seqNo ?bad) = Inr 9" by code_simp
  have nil: "handshake ''127.0.0.1:8007'' 2 [] = Inr ([getBytesFromPacket ?syn], False, [])"
    by (simp add: syn handshake.simps)
  have b: "getBytesFromPacket ?syn = [2, 0, 0, 0, 1, 127, 0, 0, 1, 31, 71, 50]"
    "getBytesFromPacket ?ack = [1, 0, 0, 0, 3, 127, 0, 0, 1, 31, 71]"
    by (simp_all add: getBytesFromPacket_def)
  have c1: "pType ?good = [3] \<and> (2 :: uint32) = seqInit + 1"
    by (simp add: seqInit_def)
  have c2: "pType ?bad \<noteq> [3] \<or> (9 :: uint32) \<noteq> seqInit + 1"
    by (simp add: seqInit_def)
  from handshake_reply [OF syn good sg, of "[]"] c1
  obtain a where a: "makePacket 1 (2 + 1) ''127.0.0.1:8007'' [] = Inr a"
    and r1: "handshake ''127.0.0.1:8007'' 2 [Datagram [3, 0, 0, 0, 2, 127, 0, 0, 1, 31, 71]]
               = Inr ([getBytesFromPacket ?syn, getBytesFromPacket a], True, [])"
    by blast
  from a ack have "a = ?ack" by simp
  with r1 have g: "handshake ''127.0.0.1:8007'' 2 [Datagram [3, 0, 0, 0, 2, 127, 0, 0, 1, 31, 71]]
               = Inr ([getBytesFromPacket ?syn, getBytesFromPacket ?ack], True, [])"
    by simp
  from handshake_reply [OF syn bad sb, of "[]"] c2
  have "handshake ''127.0.0.1:8007'' 2 [Datagram [3, 0, 0, 0, 9, 127, 0, 0, 1, 31, 71]]
          = afterWrite (getBytesFromPacket ?syn) (handshake ''127.0.0.1:8007'' 2 [])"
    by blast
  then have w: "handshake ''127.0.0.1:8007'' 2 [Datagram [3, 0, 0, 0, 9, 127, 0, 0, 1, 31, 71]]
          = Inr ([getBytesFromPacket ?syn, getBytesFromPacket ?syn], False, [])"
    by (simp only: nil afterWrite_def andThen_Inr prod.case)
  show ?thesis
    by (simp only: g w b)
qed

section \<open>Receive loop of \<^verbatim>\<open>UDPGet\<close>: lemmas\<close>

lemma makePacket_control:
  "hostAccepted host \<Longrightarrow>
     \<exists>p. makePacket t s host [] = Inr p
        \<and> getBytesFromPacket p = controlPacketBytes host (ucast t) s"
  by (simp add: makePacket_eq getBytesFromPacket_def controlPacketBytes_def bytesOfString_def)

lemma ParsePacket_controlPacketBytes:
  "hostAccepted host \<Longrightarrow>
     ParsePacket (controlPacketBytes host kind s) =
       Inr \<lparr>pType = [kind], seqNo = PutUint32 s, peerAddr = hostAddr host,
            peerPort = hostPort host, payload = []\<rparr>"
  using ParsePacket_header [of "[kind]" "PutUint32 s" "hostAddr host" "hostPort host" "[]"]
  by (simp add: controlPacketBytes_def length_hostAddr)

lemma unat_word_succ:
  fixes a b :: uint32
  assumes "a < b"
  shows "unat (a + 1) = Suc (unat a)"
proof -
  from assms have lt: "unat a < unat b"
    by (simp add: word_less_nat_alt)
  have "unat b < 2 ^ 32"
    using unsigned_less [of b] by simp
  with lt show ?thesis
    by (simp add: unat_word_ariths)
qed

lemma nakLoop_eq:
  assumes host: "hostAccepted host"
  shows "nakLoop host a b ns ws =
           Inr (ns @ map (\<lambda>i. a + word_of_nat i) [0..<unat b - unat a],
                ws @ map (\<lambda>i. controlPacketBytes host 4 (a + word_of_nat i)) [0..<unat b - unat a])"
proof (induction "unat b - unat a" arbitrary: a ns ws)
  case 0
  then have "\<not> a < b"
    by (simp add: word_less_nat_alt)
  with 0 show ?case
    by (subst nakLoop.simps) simp
next
  case (Suc n)
  then have lt: "a < b"
    by (simp add: word_less_nat_alt)
  have succ: "unat (a + 1) = Suc (unat a)"
    using lt by (rule unat_word_succ)
  with Suc.hyps(2) have n: "n = unat b - unat (a + 1)" by simp
  obtain p where p: "makePacket 4 a host [] = Inr p"
      "getBytesFromPacket p = controlPacketBytes host 4 a"
    using makePacket_control [OF host, of 4 a] by auto
  have step: "nakLoop host a b ns ws =
                nakLoop host (a + 1) b (ns @ [a]) (ws @ [controlPacketBytes host 4 a])"
    using lt by (subst nakLoop.simps) (simp add: p)
  have idx: "[0..<Suc n] = 0 # map Suc [0..<n]"
    by (simp add: upt_conv_Cons map_Suc_upt del: upt_Suc)
  have shift: "a + 1 + word_of_nat i = a + word_of_nat (Suc i)" for i
    by (simp add: add.assoc)
  show ?case
    unfolding step Suc.hyps(1) [OF n] Suc.hyps(2) [symmetric] idx
    by (simp add: shift comp_def n [symmetric])
qed


lemma allocateBuffer_invariant:
  assumes "getInvariant st" and "allocateBuffer st pkt = Inr st1"
  shows "1 \<le> numOfResponsePackets st1"
    and "length (responsePayload st1) = nat (numOfResponsePackets st1 + 5)"
    and "expectedSeqNo st1 = expectedSeqNo st" and "naks st1 = naks st"
    and "nakList st1 = nakList st"
proof -
  have pos: "uint w \<noteq> 0 \<Longrightarrow> 1 \<le> uint w" for w :: byte
    using uint_ge_0 [of w] by linarith
  show "1 \<le> numOfResponsePackets st1"
    and "length (responsePayload st1) = nat (numOfResponsePackets st1 + 5)"
    and "expectedSeqNo st1 = expectedSeqNo st" and "naks st1 = naks st"
    and "nakList st1 = nakList st"
    using assms
    by (auto simp add: getInvariant_def allocateBuffer_def indexAtInt_def Let_def pos
        split: if_splits)
qed

lemma allocateBuffer_total:
  "payload pkt \<noteq> [] \<Longrightarrow> \<exists>st1. allocateBuffer st pkt = Inr st1"
  by (simp add: allocateBuffer_def indexAtInt_def Let_def)

lemma getData_eq:
  assumes alloc: "allocateBuffer st pkt = Inr st1"
    and inv: "getInvariant st"
    and seq: "Uint32 (seqNo pkt) = Inr seq"
    and pl: "2 \<le> length (payload pkt)"
    and fits: "unat seq < length (responsePayload st1)"
    and ack: "acknowledge host
                (st1\<lparr>responsePayload :=
                       (responsePayload st1)[unat seq :=
                          stringOfBytes (take (length (payload pkt) - 2) (payload pkt))],
                     acks := acks st1 @ [seq]\<rparr>) seq = Inr (ws, st3)"
    and same: "numOfResponsePackets st3 = numOfResponsePackets st1"
      "length (responsePayload st3) = length (responsePayload st1)"
  shows "\<exists>r. getData host st pkt = Inr \<lparr>written = ws, offered = None, after = st3, returned = r\<rparr>"
proof -
  have n1: "1 \<le> numOfResponsePackets st1"
    and len: "length (responsePayload st1) = nat (numOfResponsePackets st1 + 5)"
    using allocateBuffer_invariant [OF inv alloc] by simp_all
  have sl: "sliceInt (payload pkt) 0 (int (length (payload pkt)) - 2) =
              Inr (take (length (payload pkt) - 2) (payload pkt))"
  proof -
    from pl have "nat (int (length (payload pkt)) - 2) = length (payload pkt) - 2"
      by simp
    with pl show ?thesis by (simp add: sliceInt_def)
  qed
  have st: "setAt (responsePayload st1) (unat seq) v = Inr ((responsePayload st1)[unat seq := v])" for v
    using fits by (simp add: setAt_def)
  have ix: "indexAt (responsePayload st3) (unat seq) = Inr (responsePayload st3 ! unat seq)"
    using fits same by (simp add: indexAt_def)
  have win: "\<exists>w. sliceInt (responsePayload st3) 1 (numOfResponsePackets st3 + 1) = Inr w"
    using n1 len same by (simp add: sliceInt_def)
  then obtain w where w: "sliceInt (responsePayload st3) 1 (numOfResponsePackets st3 + 1) = Inr w"
    by blast
  show ?thesis
    unfolding getData_def Let_def
    by (simp add: alloc seq sl st ack ix w)
qed


lemma parsed_1024:
  assumes "ParsePacket (readInto 1024 d) = Inr pkt"
  shows "length (payload pkt) = 1013" and "length (pType pkt) = 1" and "length (seqNo pkt) = 4"
  using assms by (auto simp add: ParsePacket_long)

lemma getIteration_data:
  assumes "ParsePacket (readInto 1024 d) = Inr pkt" and "pType pkt = [0]"
  shows "getIteration host st (Datagram d) = getData host st pkt"
  using assms by (simp add: getIteration_def indexAt_def)

lemma acknowledge_seen:
  assumes "hostAccepted host" and "seq \<le> expectedSeqNo st"
  shows "acknowledge host st seq =
           Inr ([controlPacketBytes host 4 seq],
                if seq = expectedSeqNo st then st\<lparr>expectedSeqNo := expectedSeqNo st + 1\<rparr> else st)"
proof -
  obtain p where p: "makePacket 4 seq host [] = Inr p"
      "getBytesFromPacket p = controlPacketBytes host 4 seq"
    using makePacket_control [OF assms(1), of 4 seq] by auto
  show ?thesis
  proof (cases "seq = expectedSeqNo st")
    case True
    with p show ?thesis by (simp add: acknowledge_def)
  next
    case False
    with assms(2) have "seq < expectedSeqNo st" by simp
    with False p show ?thesis by (simp add: acknowledge_def)
  qed
qed

lemma acknowledge_gap:
  assumes "hostAccepted host" and "expectedSeqNo st < seq"
  shows "acknowledge host st seq =
           Inr (map (\<lambda>i. controlPacketBytes host 4 (expectedSeqNo st + word_of_nat i))
                  [0..<unat seq - unat (expectedSeqNo st)],
                st\<lparr>naks := naks st @ map (\<lambda>i. expectedSeqNo st + word_of_nat i)
                                       [0..<unat seq - unat (expectedSeqNo st)],
                   expectedSeqNo := seq + 1\<rparr>)"
proof -
  from assms(2) have "seq \<noteq> expectedSeqNo st" and "\<not> seq < expectedSeqNo st"
    by auto
  then show ?thesis
    by (simp add: acknowledge_def nakLoop_eq [OF assms(1)])
qed

lemma getData_no_slot:
  assumes "allocateBuffer st pkt = Inr st1" and "Uint32 (seqNo pkt) = Inr seq"
    and "2 \<le> length (payload pkt)" and "length (responsePayload st1) \<le> unat seq"
  shows "getData host st pkt = Inl (Panic IndexOutOfRange)"
proof -
  from assms(3) have "\<exists>sl. sliceInt (payload pkt) 0 (int (length (payload pkt)) - 2) = Inr sl"
    by (simp add: sliceInt_def)
  then obtain sl where "sliceInt (payload pkt) 0 (int (length (payload pkt)) - 2) = Inr sl"
    by blast
  with assms show ?thesis
    by (simp add: getData_def Let_def setAt_def)
qed

lemma andThen_eq_Inr: "andThen m f = Inr y \<longleftrightarrow> (\<exists>v. m = Inr v \<and> f v = Inr y)"
  by (cases m) simp_all

lemma acknowledge_keeps_buffer:
  assumes "acknowledge host st seq = Inr (ws, st')"
  shows "numOfResponsePackets st' = numOfResponsePackets st"
    and "responsePayload st' = responsePayload st"
  using assms
  by (auto simp add: acknowledge_def andThen_eq_Inr split: if_splits prod.splits)

lemma getData_invariant:
  assumes "getData host st pkt = Inr step" and "getInvariant st"
  shows "getInvariant (after step)"
proof -
  from assms(1) obtain st1 seq sl buf ws st3 where
    alloc: "allocateBuffer st pkt = Inr st1"
    and buf: "setAt (responsePayload st1) (unat seq) (stringOfBytes sl) = Inr buf"
    and ack: "acknowledge host (st1\<lparr>responsePayload := buf, acks := acks st1 @ [seq]\<rparr>) seq
                = Inr (ws, st3)"
    and fin: "after step = st3"
    by (auto simp add: getData_def Let_def andThen_eq_Inr split: if_splits prod.splits)
  from buf have "length buf = length (responsePayload st1)"
    by (auto simp add: setAt_def split: if_splits)
  moreover note allocateBuffer_invariant [OF assms(2) alloc] acknowledge_keeps_buffer [OF ack]
  ultimately show ?thesis
    by (simp add: fin getInvariant_def)
qed

lemma getIteration_invariant:
  assumes "getIteration host st r = Inr step" and "getInvariant st"
  shows "getInvariant (after step)"
proof (cases r)
  case ReadErr
  with assms show ?thesis
    by (auto simp add: getIteration_def andThen_eq_Inr)
next
  case (Datagram d)
  with assms(1) have
    "(\<exists>pkt. getData host st pkt = Inr step) \<or> (\<exists>nl. after step = st\<lparr>nakList := nl\<rparr>)
       \<or> after step = st"
    by (auto simp add: getIteration_def andThen_eq_Inr split: if_splits)
  moreover have "getInvariant (st\<lparr>nakList := nl\<rparr>)" for nl
    using assms(2) by (simp add: getInvariant_def)
  ultimately show ?thesis
    using getData_invariant [OF _ assms(2)] assms(2) by auto
qed

lemma getInvariant_initial: "getInvariant initialGetState"
  by (simp add: getInvariant_def initialGetState_def)

section \<open>Receive loop of \<^verbatim>\<open>UDPGet\<close>: claims\<close>

text \<open>C3. For a DATA datagram whose sequence number is the expected one or below it,
  and has a slot in the reassembly buffer, the iteration writes exactly one datagram for
  that sequence number; the expected sequence number is incremented in the first case
  and unchanged in the second. The datagram written has kind byte 4, the kind of a NAK,
  where the claim has 1, as have the comment of \<^verbatim>\<open>makePacket\<close> and the ACK of the
  handshake. In both cases the payload received, without its last two bytes, is stored
  in the slot of the buffer.\<close>

theorem data_reply_has_kind_4:
  assumes "hostAccepted host" and "getInvariant st"
    and "ParsePacket (readInto 1024 d) = Inr pkt" and "pType pkt = [0]"
    and "Uint32 (seqNo pkt) = Inr seq"
    and "allocateBuffer st pkt = Inr st1"
    and "seq \<le> expectedSeqNo st"
    and "unat seq < length (responsePayload st1)"
  shows "\<exists>step p. getIteration host st (Datagram d) = Inr step
           \<and> written step = [controlPacketBytes host 4 seq]
           \<and> ParsePacket (controlPacketBytes host 4 seq) = Inr p
           \<and> pType p = [4] \<and> Uint32 (seqNo p) = Inr seq
           \<and> expectedSeqNo (after step)
               = (if seq = expectedSeqNo st then expectedSeqNo st + 1 else expectedSeqNo st)
           \<and> responsePayload (after step)
               = (responsePayload st1)[unat seq := stringOfBytes (take 1011 (payload pkt))]"
proof -
  let ?st2 = "st1\<lparr>responsePayload :=
                   (responsePayload st1)[unat seq :=
                      stringOfBytes (take (length (payload pkt) - 2) (payload pkt))],
                 acks := acks st1 @ [seq]\<rparr>"
  let ?st3 = "if seq = expectedSeqNo ?st2 then ?st2\<lparr>expectedSeqNo := expectedSeqNo ?st2 + 1\<rparr>
              else ?st2"
  have len: "length (payload pkt) = 1013"
    using assms(3) by (rule parsed_1024)
  have e: "expectedSeqNo st1 = expectedSeqNo st"
    using allocateBuffer_invariant [OF assms(2) assms(6)] by simp
  have ack: "acknowledge host ?st2 seq = Inr ([controlPacketBytes host 4 seq], ?st3)"
    using assms(7) e by (intro acknowledge_seen [OF assms(1)]) simp
  have "\<exists>r. getData host st pkt =
          Inr \<lparr>written = [controlPacketBytes host 4 seq], offered = None, after = ?st3,
               returned = r\<rparr>"
    using len assms(8)
    by (intro getData_eq [OF assms(6) assms(2) assms(5) _ _ ack]) simp_all
  then obtain r where "getIteration host st (Datagram d) =
      Inr \<lparr>written = [controlPacketBytes host 4 seq], offered = None, after = ?st3, returned = r\<rparr>"
    using getIteration_data [OF assms(3) assms(4)] by auto
  then show ?thesis
    using e len by (simp add: ParsePacket_controlPacketBytes [OF assms(1)])
qed

text \<open>C5, as the code has it. When the expected sequence number is \<open>E\<close> and a DATA
  datagram arrives whose sequence number is above \<open>E\<close> and has a slot in the reassembly
  buffer, the iteration writes exactly \<open>k\<close> datagrams, \<open>k\<close> the distance from \<open>E\<close>
  to the sequence number received: NAKs (kind byte 4) for \<open>E\<close>, \<open>E + 1\<close>, ... up to
  the one before the number received; and the expected sequence number becomes the one
  after the number received.\<close>

theorem gap_detection:
  assumes "hostAccepted host" and "getInvariant st"
    and "ParsePacket (readInto 1024 d) = Inr pkt" and "pType pkt = [0]"
    and "Uint32 (seqNo pkt) = Inr seq"
    and "allocateBuffer st pkt = Inr st1"
    and "expectedSeqNo st < seq"
    and "unat seq < length (responsePayload st1)"
  shows "\<exists>step. getIteration host st (Datagram d) = Inr step
           \<and> length (written step) = unat seq - unat (expectedSeqNo st)
           \<and> seq = expectedSeqNo st + word_of_nat (unat seq - unat (expectedSeqNo st))
           \<and> (\<forall>i < unat seq - unat (expectedSeqNo st). \<exists>p.
                 ParsePacket (written step ! i) = Inr p \<and> pType p = [4]
               \<and> Uint32 (seqNo p) = Inr (expectedSeqNo st + word_of_nat i) \<and> payload p = [])
           \<and> expectedSeqNo (after step) = seq + 1"
proof -
  let ?E = "expectedSeqNo st"
  let ?k = "unat seq - unat ?E"
  let ?st2 = "st1\<lparr>responsePayload :=
                   (responsePayload st1)[unat seq :=
                      stringOfBytes (take (length (payload pkt) - 2) (payload pkt))],
                 acks := acks st1 @ [seq]\<rparr>"
  let ?ws = "map (\<lambda>i. controlPacketBytes host 4 (?E + word_of_nat i)) [0..<?k]"
  let ?st3 = "?st2\<lparr>naks := naks ?st2 @ map (\<lambda>i. ?E + word_of_nat i) [0..<?k],
                   expectedSeqNo := seq + 1\<rparr>"
  have len: "length (payload pkt) = 1013"
    using assms(3) by (rule parsed_1024)
  have e: "expectedSeqNo st1 = ?E"
    using allocateBuffer_invariant [OF assms(2) assms(6)] by simp
  have ack: "acknowledge host ?st2 seq = Inr (?ws, ?st3)"
    using acknowledge_gap [OF assms(1), of ?st2 seq] assms(7) e by simp
  have "\<exists>r. getData host st pkt =
          Inr \<lparr>written = ?ws, offered = None, after = ?st3, returned = r\<rparr>"
    using len assms(8)
    by (intro getData_eq [OF assms(6) assms(2) assms(5) _ _ ack]) simp_all
  then obtain r where run: "getIteration host st (Datagram d) =
      Inr \<lparr>written = ?ws, offered = None, after = ?st3, returned = r\<rparr>"
    using getIteration_data [OF assms(3) assms(4)] by auto
  from assms(7) have "unat ?E \<le> unat seq"
    by (simp add: word_less_nat_alt)
  then have split: "unat seq = unat ?E + ?k"
    by simp
  have "seq = word_of_nat (unat seq)"
    by simp
  also have "\<dots> = word_of_nat (unat ?E + ?k)"
    using split by simp
  also have "\<dots> = word_of_nat (unat ?E) + word_of_nat ?k"
    by (rule of_nat_add)
  also have "word_of_nat (unat ?E) = ?E"
    by simp
  finally have dist: "seq = ?E + word_of_nat ?k" .
  have each: "\<exists>p. ParsePacket (?ws ! i) = Inr p \<and> pType p = [4]
               \<and> Uint32 (seqNo p) = Inr (?E + word_of_nat i) \<and> payload p = []"
    if "i < ?k" for i
    using that by (simp add: ParsePacket_controlPacketBytes [OF assms(1)])
  show ?thesis
    using run dist each by (intro exI [of _ "\<lparr>written = ?ws, offered = None, after = ?st3, returned = r\<rparr>"]) simp
qed


lemma received_short_datagram:
  "ParsePacket (readInto 1024 [k, s0, s1, s2, s3, 127, 0, 0, 1, 31, 71]) =
     Inr \<lparr>pType = [k], seqNo = [s0, s1, s2, s3], peerAddr = [127, 0, 0, 1],
          peerPort = [31, 71], payload = replicate 1013 0\<rparr>"
  using ParsePacket_header [of "[k]" "[s0, s1, s2, s3]" "[127, 0, 0, 1]" "[31, 71]"
      "replicate 1013 0"]
  by (simp add: readInto_def)

lemma allocate_initial:
  "allocateBuffer initialGetState
     \<lparr>pType = t, seqNo = sq, peerAddr = a, peerPort = p, payload = replicate 1013 0\<rparr>
   = Inr (initialGetState\<lparr>numOfResponsePackets := 1, responsePayload := replicate 6 []\<rparr>)"
  by (simp add: allocateBuffer_def initialGetState_def indexAtInt_def)

theorem data_reply_has_kind_4_witness:
  "\<exists>step. getIteration ''127.0.0.1:8007'' initialGetState
             (Datagram [0, 0, 0, 0, 1, 127, 0, 0, 1, 31, 71]) = Inr step
         \<and> written step = [[4, 0, 0, 0, 1, 127, 0, 0, 1, 31, 71]]
         \<and> expectedSeqNo (after step) = 2"
proof -
  let ?pkt = "\<lparr>pType = [0], seqNo = [0, 0, 0, 1], peerAddr = [127, 0, 0, 1],
               peerPort = [31, 71], payload = replicate 1013 0\<rparr> :: UDPPacket"
  have h: "hostAccepted ''127.0.0.1:8007''" by code_simp
  have c: "controlPacketBytes ''127.0.0.1:8007'' 4 1 = [4, 0, 0, 0, 1, 127, 0, 0, 1, 31, 71]"
    by code_simp
  have sq: "Uint32 (seqNo ?pkt) = Inr 1" by (simp add: Uint32_def)
  have e: "(1 :: uint32) \<le> expectedSeqNo initialGetState"
    by (simp add: initialGetState_def)
  have f: "unat (1 :: uint32) < length (responsePayload
             (initialGetState\<lparr>numOfResponsePackets := 1, responsePayload := replicate 6 []\<rparr>))"
    by simp
  from data_reply_has_kind_4 [OF h getInvariant_initial received_short_datagram _ sq
      allocate_initial e f]
  show ?thesis
    by (auto simp add: c initialGetState_def)
qed

theorem gap_detection_witness:
  "\<exists>step. getIteration ''127.0.0.1:8007'' initialGetState
             (Datagram [0, 0, 0, 0, 3, 127, 0, 0, 1, 31, 71]) = Inr step
         \<and> length (written step) = 2
         \<and> expectedSeqNo (after step) = 4"
proof -
  let ?pkt = "\<lparr>pType = [0], seqNo = [0, 0, 0, 3], peerAddr = [127, 0, 0, 1],
               peerPort = [31, 71], payload = replicate 1013 0\<rparr> :: UDPPacket"
  have h: "hostAccepted ''127.0.0.1:8007''" by code_simp
  have sq: "Uint32 (seqNo ?pkt) = Inr 3" by (simp add: Uint32_def)
  have e: "expectedSeqNo initialGetState < (3 :: uint32)"
    by (simp add: initialGetState_def)
  have f: "unat (3 :: uint32) < length (responsePayload
             (initialGetState\<lparr>numOfResponsePackets := 1, responsePayload := replicate 6 []\<rparr>))"
    by simp
  from gap_detection [OF h getInvariant_initial received_short_datagram _ sq
      allocate_initial e f]
  show ?thesis
    by (auto simp add: initialGetState_def)
qed

text \<open>The claim as stated fails when the sequence number received has no slot in the
  reassembly buffer. With \<open>E = 1\<close> at the start, a first DATA datagram with sequence
  number 6 (\<open>k = 5\<close>) and count byte 0 gives a buffer of six slots, indexed 0 to 5; the
  store into slot 6 panics before any NAK is written.\<close>

theorem gap_without_slot_counterexample:
  "expectedSeqNo initialGetState = 1
   \<and> getIteration ''127.0.0.1:8007'' initialGetState
        (Datagram [0, 0, 0, 0, 6, 127, 0, 0, 1, 31, 71]) = Inl (Panic IndexOutOfRange)"
proof -
  let ?pkt = "\<lparr>pType = [0], seqNo = [0, 0, 0, 6], peerAddr = [127, 0, 0, 1],
               peerPort = [31, 71], payload = replicate 1013 0\<rparr> :: UDPPacket"
  have sq: "Uint32 (seqNo ?pkt) = Inr 6" by (simp add: Uint32_def)
  have "getData ''127.0.0.1:8007'' initialGetState ?pkt = Inl (Panic IndexOutOfRange)"
    by (rule getData_no_slot [OF allocate_initial sq]) simp_all
  then show ?thesis
    using getIteration_data [OF received_short_datagram, of 0 0 0 0 6]
    by (simp add: initialGetState_def)
qed

section \<open>Redirects: lemmas\<close>

lemma HandleRedirects_exhausted:
  "5 \<le> c \<Longrightarrow>
     HandleRedirects get resp rs c fetched = (Inl (ErrorString ''Exceeded 5 redirects!''), fetched)"
  by (subst HandleRedirects.simps) simp


lemma HandleRedirects_bad_redirect:
  "c < 5 \<Longrightarrow> 301 \<le> StatusCode r \<Longrightarrow> StatusCode r \<le> 303 \<Longrightarrow>
   extractRedirectURI (Headers r) = [] \<Longrightarrow>
     HandleRedirects get (Some r) rs c fetched =
       (Inl (ErrorString ''Bad redirect URI in Location header''), fetched)"
  by (subst HandleRedirects.simps) simp

lemma HandleRedirects_hop:
  "c < 5 \<Longrightarrow> 301 \<le> StatusCode r \<Longrightarrow> StatusCode r \<le> 303 \<Longrightarrow>
   extractRedirectURI (Headers r) = uri \<Longrightarrow> uri \<noteq> [] \<Longrightarrow>
   get (length fetched) uri = Inr rs' \<Longrightarrow> FromString rs' = Inr resp' \<Longrightarrow>
     HandleRedirects get (Some r) rs c fetched =
       HandleRedirects get resp' rs' (c + 1) (fetched @ [uri])"
  by (subst HandleRedirects.simps) simp





lemma chain_exhausted:
  assumes "follows get (length fetched) r steps"
    and "c + int (length steps) = 5"
  shows "HandleRedirects get (Some r) rs c fetched
           = (Inl (ErrorString ''Exceeded 5 redirects!''), fetched @ map fst steps)"
  using assms
proof (induction steps arbitrary: r rs c fetched)
  case Nil
  then show ?case
    by (simp add: HandleRedirects_exhausted)
next
  case (Cons step rest)
  obtain uri reply r' where step: "step = (uri, reply, r')"
    by (cases step)
  from Cons.prems(1) step have hop: "isRedirect r" "extractRedirectURI (Headers r) = uri"
      "uri \<noteq> []" "get (length fetched) uri = Inr reply" "FromString reply = Inr (Some r')"
    and more: "follows get (length (fetched @ [uri])) r' rest"
    by simp_all
  from Cons.prems(2) have c: "c < 5" and c': "c + 1 + int (length rest) = 5"
    by simp_all
  have "HandleRedirects get (Some r) rs c fetched
          = HandleRedirects get (Some r') reply (c + 1) (fetched @ [uri])"
    using c hop by (intro HandleRedirects_hop) (simp_all add: isRedirect_def)
  also have "\<dots> = (Inl (ErrorString ''Exceeded 5 redirects!''), (fetched @ [uri]) @ map fst rest)"
    using more c' by (intro Cons.IH) simp_all
  finally show ?case
    by (simp add: step)
qed

section \<open>Redirects: claim\<close>






text \<open>Outside the statement above: the answer to the fifth hop is parsed but never
  examined. A chain whose fifth hop reaches a response with another status ends in the
  same error, although no more than five redirects were followed.\<close>

lemma HandleRedirects_fifth_answer_discarded:
  "follows get (length fetched) r steps \<Longrightarrow> c + int (length steps) = 5 \<Longrightarrow>
     HandleRedirects get (Some r) rs c fetched
       = (Inl (ErrorString ''Exceeded 5 redirects!''), fetched @ map fst steps)"
  by (rule chain_exhausted)

section \<open>Hand-off: claim\<close>

lemma getHandOff_cases:
  "getHandOff ch v =
     (if receiverParked ch then Delivered (ch\<lparr>receiverParked := False\<rparr>)
      else if length (buffered ch) < capacity ch then Delivered (ch\<lparr>buffered := buffered ch @ [v]\<rparr>)
      else Dropped ch)"
  by (simp add: getHandOff_def trySend_def)

lemma getHandOff_never_blocks: "getHandOff ch v \<noteq> Blocked ch'"
  by (simp add: getHandOff_cases)

lemma postHandOff_full_drops:
  "\<not> receiverParked ch \<Longrightarrow> capacity ch \<le> length (buffered ch) \<Longrightarrow> postHandOff ch v = Dropped ch"
  by (simp add: postHandOff_def trySend_def)

text \<open>C6. In \<^verbatim>\<open>UDPGet\<close> the hand-off is the \<^verbatim>\<open>select\<close> alone and never blocks
  (\<open>getHandOff_never_blocks\<close>), and in both functions a full channel without a parked
  receiver drops the packet. In \<^verbatim>\<open>UDPPost\<close> the send case of the \<^verbatim>\<open>select\<close> holds a
  second, plain send of the same packet: when the receiver is not parked and the buffer
  has exactly one free slot, the first send fills the buffer and the second blocks the
  receive loop.\<close>

theorem postHandOff_blocks:
  assumes "\<not> receiverParked ch" and "Suc (length (buffered ch)) = capacity ch"
  shows "postHandOff ch v = Blocked (ch\<lparr>buffered := buffered ch @ [v]\<rparr>)"
  using assms by (simp add: postHandOff_def trySend_def)

theorem postHandOff_blocks_witness:
  "postHandOff
     \<lparr>buffered = replicate 1023 \<lparr>pType = [1], seqNo = [0, 0, 0, 4], peerAddr = [127, 0, 0, 1],
                                   peerPort = [31, 71], payload = []\<rparr>,
      capacity = 1024, receiverParked = False\<rparr>
     \<lparr>pType = [1], seqNo = [0, 0, 0, 5], peerAddr = [127, 0, 0, 1], peerPort = [31, 71],
      payload = []\<rparr>
   = Blocked
       \<lparr>buffered = replicate 1023 \<lparr>pType = [1], seqNo = [0, 0, 0, 4],
               peerAddr = [127, 0, 0, 1], peerPort = [31, 71], payload = []\<rparr>
             @ [\<lparr>pType = [1], seqNo = [0, 0, 0, 5], peerAddr = [127, 0, 0, 1],
                 peerPort = [31, 71], payload = []\<rparr>],
        capacity = 1024, receiverParked = False\<rparr>"
  using postHandOff_blocks
    [of "\<lparr>buffered = replicate 1023 \<lparr>pType = [1], seqNo = [0, 0, 0, 4],
                   peerAddr = [127, 0, 0, 1], peerPort = [31, 71], payload = []\<rparr>,
           capacity = 1024, receiverParked = False\<rparr>"
        "\<lparr>pType = [1], seqNo = [0, 0, 0, 5], peerAddr = [127, 0, 0, 1], peerPort = [31, 71],
           payload = []\<rparr>"]
  by simp

end
